theory Spec2Isabelle
  imports Main
begin

section \<open>Reminder scheduling and push delivery of \<^verbatim>\<open>src/server.js\<close>\<close>

text \<open>
  The development embeds the notification cron of \<^verbatim>\<open>server.js\<close> (the callback of
  \<^verbatim>\<open>setInterval\<close>, lines 147 to 205) and the Mongoose schemas it reads.

  Conventions of the embedding:
  \<^item> a JavaScript string is the list of the bytes of its UTF-8 encoding, the form in
    which the payload leaves the process;
  \<^item> a schema field that a document may lack is an \<open>option\<close>, \<open>None\<close> being
    \<^verbatim>\<open>undefined\<close>; a stored \<^verbatim>\<open>null\<close> is not modelled;
  \<^item> instants are \<open>int\<close> milliseconds since the epoch, and \<^verbatim>\<open>reminderOffset\<close> is an
    \<open>int\<close> number of minutes; on these the double arithmetic of the source is exact
    within the range of \<^verbatim>\<open>Date\<close>, whose limit \<open>maxTime\<close> is modelled;
  \<^item> what the runtime and the network decide (the clock, \<^verbatim>\<open>Date\<close> parsing, the result
    of every push, whether a store call throws) is read from an environment \<open>env\<close>;
  \<^item> every store call, push and console line is emitted as an \<open>event\<close>, in order.
\<close>

subsection \<open>Documents\<close>

text \<open>
  \<^verbatim>\<open>taskSchema\<close>, with the fields the cron reads or writes. \<open>doc_id\<close> is the
  \<^verbatim>\<open>_id\<close> MongoDB gives every document; \<^verbatim>\<open>save()\<close> addresses the document by it.
  \<open>notified\<close> has a schema default, so it is never absent.
\<close>

record task =
  doc_id :: nat
  title :: "string option"
  date :: "string option"
  startTime :: "string option"
  completed :: "bool option"
  reminderOffset :: "int option"
  notified :: bool

text \<open>\<^verbatim>\<open>subscriptionSchema\<close>: the endpoint and the two keys \<^verbatim>\<open>p256dh\<close>, \<^verbatim>\<open>auth\<close>.\<close>

record subscription =
  endpoint :: string
  keys :: "string \<times> string"

text \<open>The two collections the cron works on.\<close>

record store =
  subscriptions :: "subscription list"
  tasks :: "task list"

subsection \<open>Environment and events\<close>

text \<open>
  How \<^verbatim>\<open>webpush.sendNotification(sub, payload)\<close> settles: it resolves, or rejects with an
  error carrying \<^verbatim>\<open>statusCode\<close> (absent on errors that are not HTTP answers) and
  \<^verbatim>\<open>message\<close>.
\<close>

datatype send_result = Delivered | Rejected "int option" string

text \<open>
  One tick's surroundings. \<open>pushOutcome\<close>, \<open>deleteOneThrows\<close> and \<open>saveThrows\<close> take the
  \<open>doc_id\<close> of the task being notified first: within a tick every call is identified by
  the task and the subscriber it is made for, so the results of different calls are
  independent of each other.
\<close>

record env =
  readyState :: nat
  now :: int
  parseDate :: "string \<Rightarrow> int option"
  findSubscriptionsThrows :: bool
  findTasksThrows :: bool
  pushOutcome :: "nat \<Rightarrow> subscription \<Rightarrow> string \<Rightarrow> send_result"
  deleteOneThrows :: "nat \<Rightarrow> string \<Rightarrow> bool"
  saveThrows :: "nat \<Rightarrow> bool"

datatype event =
    SubscriptionFind
  | TaskFind
  | SendNotification string string
  | SubscriptionDeleteOne string
  | TaskSave nat
  | LogFound nat
  | LogPushError string
  | LogLoopError

subsection \<open>Strings\<close>

text \<open>A template literal prints an absent value as \<^verbatim>\<open>undefined\<close>.\<close>

definition js_str :: "string option \<Rightarrow> string" where
  "js_str v = (case v of None \<Rightarrow> ''undefined'' | Some s \<Rightarrow> s)"

text \<open>
  Number to string, as a template literal does it for an integer: decimal digits, a
  leading minus sign for a negative number (the source switches to exponent notation
  from \<open>10\<^sup>2\<^sup>1\<close> on, far beyond any offset in minutes).
\<close>

definition digitChar :: "nat \<Rightarrow> char" where
  "digitChar d = char_of (48 + d)"

fun showNat :: "nat \<Rightarrow> string" where
  "showNat n = (if n < 10 then [digitChar n] else showNat (n div 10) @ [digitChar (n mod 10)])"

definition showInt :: "int \<Rightarrow> string" where
  "showInt i = (if i < 0 then CHR ''-'' # showNat (nat (- i)) else showNat (nat i))"

text \<open>Reading a decimal numeral back, to state that the digits are those of the number.\<close>

definition digitVal :: "char \<Rightarrow> nat" where
  "digitVal c = of_char c - 48"

definition readNat :: "string \<Rightarrow> nat" where
  "readNat ds = foldl (\<lambda>acc c. 10 * acc + digitVal c) 0 ds"

text \<open>
  \<^verbatim>\<open>JSON.stringify\<close> on a string: the quotation mark and the backslash are escaped, the
  control characters below \<open>0x20\<close> are written with their short escape or as
  \<^verbatim>\<open>\u00XX\<close> in lower-case hexadecimal, every other byte is kept.
\<close>

definition hexChar :: "nat \<Rightarrow> char" where
  "hexChar d = (if d < 10 then char_of (48 + d) else char_of (87 + d))"

definition jsonEscape :: "char \<Rightarrow> string" where
  "jsonEscape c =
     (if c = CHR 0x22 then [CHR 0x5C, CHR 0x22]
      else if c = CHR 0x5C then [CHR 0x5C, CHR 0x5C]
      else if c = CHR 0x08 then [CHR 0x5C, CHR ''b'']
      else if c = CHR 0x0C then [CHR 0x5C, CHR ''f'']
      else if c = CHR 0x0A then [CHR 0x5C, CHR ''n'']
      else if c = CHR 0x0D then [CHR 0x5C, CHR ''r'']
      else if c = CHR 0x09 then [CHR 0x5C, CHR ''t'']
      else if (of_char c :: nat) < 32
        then [CHR 0x5C, CHR ''u'', CHR ''0'', CHR ''0'',
              hexChar (of_char c div 16), hexChar (of_char c mod 16)]
      else [c])"

definition jsonQuote :: "string \<Rightarrow> string" where
  "jsonQuote s = CHR 0x22 # concat (map jsonEscape s) @ [CHR 0x22]"

text \<open>\<^verbatim>\<open>JSON.stringify\<close> on an object whose values are strings, keys in insertion order.\<close>

fun jsonMembers :: "(string \<times> string) list \<Rightarrow> string" where
  "jsonMembers [] = []"
| "jsonMembers [(k, v)] = jsonQuote k @ '':'' @ jsonQuote v"
| "jsonMembers ((k, v) # kvs) = jsonQuote k @ '':'' @ jsonQuote v @ '','' @ jsonMembers kvs"

definition JSON_stringify :: "(string \<times> string) list \<Rightarrow> string" where
  "JSON_stringify kvs = ''{'' @ jsonMembers kvs @ ''}''"

subsection \<open>The payload (lines 177 to 184)\<close>

text \<open>The literals of the source, as UTF-8 bytes.\<close>

definition notificationTitle :: string where
  "notificationTitle = ''LifeOS '' @
     [CHR 0xE6, CHR 0x97, CHR 0xA5, CHR 0xE7, CHR 0xA8, CHR 0x8B,
      CHR 0xE6, CHR 0x8F, CHR 0x90, CHR 0xE9, CHR 0x86, CHR 0x92]"

definition wordTask :: string where
  "wordTask = [CHR 0xE4, CHR 0xBB, CHR 0xBB, CHR 0xE5, CHR 0x8A, CHR 0xA1]"

definition phraseStartsNow :: string where
  "phraseStartsNow =
     [CHR 0xE7, CHR 0x8E, CHR 0xB0, CHR 0xE5, CHR 0x9C, CHR 0xA8,
      CHR 0xE5, CHR 0xBC, CHR 0x80, CHR 0xE5, CHR 0xA7, CHR 0x8B]"

definition phraseWillIn :: string where
  "phraseWillIn = [CHR 0xE5, CHR 0xB0, CHR 0x86, CHR 0xE5, CHR 0x9C, CHR 0xA8]"

definition phraseMinutesLater :: string where
  "phraseMinutesLater =
     [CHR 0xE5, CHR 0x88, CHR 0x86, CHR 0xE9, CHR 0x92, CHR 0x9F, CHR 0xE5, CHR 0x90, CHR 0x8E,
      CHR 0xE5, CHR 0xBC, CHR 0x80, CHR 0xE5, CHR 0xA7, CHR 0x8B]"

definition timeDesc :: "task \<Rightarrow> string" where
  "timeDesc task =
     (let offset = (case reminderOffset task of None \<Rightarrow> 5 | Some v \<Rightarrow> v)
      in if offset = 0 then phraseStartsNow
         else phraseWillIn @ '' '' @ showInt offset @ '' '' @ phraseMinutesLater)"

definition body :: "task \<Rightarrow> string" where
  "body task =
     wordTask @ '' '' @ [CHR 0x22] @ js_str (title task) @ [CHR 0x22] @ '' '' @ timeDesc task
       @ '' ('' @ js_str (startTime task) @ '')''"

definition payload :: "task \<Rightarrow> string" where
  "payload task =
     JSON_stringify
       [(''title'', notificationTitle), (''body'', body task), (''icon'', ''/icon.png'')]"

subsection \<open>The matcher (lines 154 to 171)\<close>

text \<open>\<^verbatim>\<open>Math.floor(x / 60000) * 60000\<close>, written out at lines 155 and 168.\<close>

definition floorMinute :: "int \<Rightarrow> int" where
  "floorMinute ms = (ms div 60000) * 60000"

definition currentTimestamp :: "env \<Rightarrow> int" where
  "currentTimestamp e = floorMinute (now e)"

text \<open>
  \<^verbatim>\<open>new Date(v).getTime()\<close> for a number \<open>v\<close>: the time value, or \<^verbatim>\<open>NaN\<close> (\<open>None\<close>)
  beyond the range of \<^verbatim>\<open>Date\<close>.
\<close>

definition maxTime :: int where
  "maxTime = 8640000000000000"

definition newDate :: "int \<Rightarrow> int option" where
  "newDate v = (if \<bar>v\<bar> \<le> maxTime then Some v else None)"

definition taskTimeStr :: "task \<Rightarrow> string" where
  "taskTimeStr t = js_str (date t) @ ''T'' @ js_str (startTime t) @ '':00''"

text \<open>
  The callback of \<^verbatim>\<open>tasks.filter\<close>. \<open>parseDate e\<close> is
  \<^verbatim>\<open>new Date(str).getTime()\<close>, \<open>None\<close> for \<^verbatim>\<open>NaN\<close>. A \<^verbatim>\<open>NaN\<close> trigger compares
  unequal to everything.
\<close>

definition isDue :: "env \<Rightarrow> task \<Rightarrow> bool" where
  "isDue e t =
     (case parseDate e (taskTimeStr t) of
        None \<Rightarrow> False
      | Some taskDate \<Rightarrow>
          (let offset = (case reminderOffset t of None \<Rightarrow> 5 | Some v \<Rightarrow> v);
               triggerDate = newDate (taskDate - offset * 60000);
               triggerTimestamp = map_option floorMinute triggerDate
           in Some (currentTimestamp e) = triggerTimestamp))"

text \<open>
  The query of line 159: \<^verbatim>\<open>completed: false\<close> matches the documents whose field is
  \<^verbatim>\<open>false\<close>, \<^verbatim>\<open>$ne: -1\<close> those whose field is absent or differs from \<open>-1\<close>.
\<close>

definition findCandidates :: "task list \<Rightarrow> task list" where
  "findCandidates ts =
     filter (\<lambda>t. completed t = Some False \<and> notified t = False \<and> reminderOffset t \<noteq> Some (- 1)) ts"

definition tasksToNotify :: "env \<Rightarrow> task list \<Rightarrow> task list" where
  "tasksToNotify e ts = filter (isDue e) (findCandidates ts)"

subsection \<open>Dispatch and commit (lines 176 to 200)\<close>

text \<open>\<^verbatim>\<open>Subscription.deleteOne({ endpoint })\<close>: the first document that matches goes.\<close>

fun deleteOne :: "string \<Rightarrow> subscription list \<Rightarrow> subscription list" where
  "deleteOne ep [] = []"
| "deleteOne ep (x # xs) = (if endpoint x = ep then xs else x # deleteOne ep xs)"

text \<open>\<^verbatim>\<open>task.save()\<close> after \<^verbatim>\<open>task.notified = true\<close>: the one modified path is written.\<close>

definition markNotified :: "nat \<Rightarrow> task list \<Rightarrow> task list" where
  "markNotified i ts = map (\<lambda>d. if doc_id d = i then d\<lparr>notified := True\<rparr> else d) ts"

text \<open>
  The handler given to \<^verbatim>\<open>.catch\<close> (lines 187 to 193). The result is the store, the
  events and whether the handler itself threw, which rejects the promise.
\<close>

definition onRejected ::
  "env \<Rightarrow> nat \<Rightarrow> subscription \<Rightarrow> int option \<Rightarrow> string \<Rightarrow> store \<Rightarrow> store \<times> event list \<times> bool" where
  "onRejected e i sub statusCode message db =
     (if statusCode = Some 410 \<or> statusCode = Some 404 then
        (if deleteOneThrows e i (endpoint sub)
         then (db, [SubscriptionDeleteOne (endpoint sub)], True)
         else (db\<lparr>subscriptions := deleteOne (endpoint sub) (subscriptions db)\<rparr>,
               [SubscriptionDeleteOne (endpoint sub)], False))
      else (db, [LogPushError message], False))"

text \<open>One promise of the array: the push settles, and a rejection runs the handler.\<close>

definition settle ::
  "env \<Rightarrow> nat \<Rightarrow> string \<Rightarrow> subscription \<Rightarrow> store \<Rightarrow> store \<times> event list \<times> bool" where
  "settle e i p sub db =
     (case pushOutcome e i sub p of
        Delivered \<Rightarrow> (db, [], False)
      | Rejected statusCode message \<Rightarrow> onRejected e i sub statusCode message db)"

text \<open>
  \<^verbatim>\<open>Promise.all\<close>: every promise runs to its end, whatever the others do, and the
  whole rejects when one of them does. In the source the \<^verbatim>\<open>await\<close> resumes at the first
  rejection, while the other handlers may still be pending, and the promises settle in an
  order the network decides; the model counts the effects of all handlers in the tick
  that started them and takes the order of the array. The statements below speak of
  membership and inclusion only, never of the order of these events.
\<close>

fun promiseAll ::
  "env \<Rightarrow> nat \<Rightarrow> string \<Rightarrow> subscription list \<Rightarrow> store \<Rightarrow> store \<times> event list \<times> bool" where
  "promiseAll e i p [] db = (db, [], False)"
| "promiseAll e i p (sub # subs) db =
     (case settle e i p sub db of
        (db1, ev1, r1) \<Rightarrow>
          (case promiseAll e i p subs db1 of
             (db2, ev2, r2) \<Rightarrow> (db2, ev1 @ ev2, r1 \<or> r2)))"

text \<open>
  The body of the \<^verbatim>\<open>for\<close> loop. \<^verbatim>\<open>subs.map\<close> starts every push before any of them
  settles. The last component tells whether the body threw.
\<close>

definition notifyTask ::
  "env \<Rightarrow> subscription list \<Rightarrow> task \<Rightarrow> store \<Rightarrow> store \<times> event list \<times> bool" where
  "notifyTask e subs task db =
     (let p = payload task;
          started = map (\<lambda>sub. SendNotification (endpoint sub) p) subs
      in case promiseAll e (doc_id task) p subs db of
           (db1, ev1, rejected) \<Rightarrow>
             if rejected then (db1, started @ ev1, True)
             else if saveThrows e (doc_id task)
               then (db1, started @ ev1 @ [TaskSave (doc_id task)], True)
             else (db1\<lparr>tasks := markNotified (doc_id task) (tasks db1)\<rparr>,
                   started @ ev1 @ [TaskSave (doc_id task)], False))"

fun notifyLoop ::
  "env \<Rightarrow> subscription list \<Rightarrow> task list \<Rightarrow> store \<Rightarrow> store \<times> event list \<times> bool" where
  "notifyLoop e subs [] db = (db, [], False)"
| "notifyLoop e subs (task # rest) db =
     (case notifyTask e subs task db of
        (db1, ev1, threw) \<Rightarrow>
          if threw then (db1, ev1, True)
          else (case notifyLoop e subs rest db1 of
                  (db2, ev2, threw2) \<Rightarrow> (db2, ev1 @ ev2, threw2)))"

subsection \<open>The tick (lines 147 to 205)\<close>

text \<open>
  One run of the callback of \<^verbatim>\<open>setInterval\<close>: the store it leaves and the events it
  emits. Whatever is thrown inside \<^verbatim>\<open>try\<close> ends the run in the \<^verbatim>\<open>catch\<close> of line 202.
\<close>

definition tick :: "env \<Rightarrow> store \<Rightarrow> store \<times> event list" where
  "tick e db =
     (if readyState e \<noteq> 1 then (db, [])
      else if findSubscriptionsThrows e then (db, [SubscriptionFind, LogLoopError])
      else
        (let subs = subscriptions db in
         if length subs = 0 then (db, [SubscriptionFind])
         else if findTasksThrows e then (db, [SubscriptionFind, TaskFind, LogLoopError])
         else
           (let due = tasksToNotify e (tasks db) in
            if length due > 0 then
              (case notifyLoop e subs due db of
                 (db1, ev1, threw) \<Rightarrow>
                   (db1, [SubscriptionFind, TaskFind, LogFound (length due)] @ ev1
                         @ (if threw then [LogLoopError] else [])))
            else (db, [SubscriptionFind, TaskFind]))))"

text \<open>The ticks of a run, one environment each; the store is all that passes between them.\<close>

fun ticks :: "env list \<Rightarrow> store \<Rightarrow> store" where
  "ticks [] db = db"
| "ticks (e # es) db = ticks es (fst (tick e db))"

subsection \<open>Notions used in the statements\<close>

text \<open>
  The two kinds of rejected push the handler tells apart: the endpoint is gone for good
  (status 404 or 410), or anything else.
\<close>

definition permanentGone :: "send_result \<Rightarrow> bool" where
  "permanentGone r = (case r of Delivered \<Rightarrow> False | Rejected c m \<Rightarrow> c = Some 410 \<or> c = Some 404)"

definition transientFailure :: "send_result \<Rightarrow> bool" where
  "transientFailure r = (case r of Delivered \<Rightarrow> False | Rejected c m \<Rightarrow> c \<noteq> Some 410 \<and> c \<noteq> Some 404)"

text \<open>
  The store is connected and none of its calls throws during the tick. It is the
  standing assumption of the statements about delivery; what a tick does when a call
  throws is the subject of claim C9.
\<close>

definition storeResponds :: "env \<Rightarrow> bool" where
  "storeResponds e \<longleftrightarrow>
     readyState e = 1 \<and> \<not> findSubscriptionsThrows e \<and> \<not> findTasksThrows e \<and>
     (\<forall>i ep. \<not> deleteOneThrows e i ep) \<and> (\<forall>i. \<not> saveThrows e i)"

text \<open>Setting \<open>notified\<close> on the documents whose \<open>doc_id\<close> is in a set.\<close>

definition markSet :: "nat set \<Rightarrow> task list \<Rightarrow> task list" where
  "markSet S ts = map (\<lambda>d. if doc_id d \<in> S then d\<lparr>notified := True\<rparr> else d) ts"

text \<open>The endpoints whose deletion goes through while task \<open>i\<close> is dispatched.\<close>

definition removed :: "env \<Rightarrow> nat \<Rightarrow> string \<Rightarrow> subscription list \<Rightarrow> string set" where
  "removed e i p subs =
     {endpoint sub | sub. sub \<in> set subs \<and> permanentGone (pushOutcome e i sub p)
        \<and> \<not> deleteOneThrows e i (endpoint sub)}"

text \<open>The body of the loop throws for task \<open>t\<close>: a deletion throws, or the save does.\<close>

definition taskThrows :: "env \<Rightarrow> subscription list \<Rightarrow> task \<Rightarrow> bool" where
  "taskThrows e subs t \<longleftrightarrow>
     (\<exists>sub \<in> set subs. permanentGone (pushOutcome e (doc_id t) sub (payload t))
        \<and> deleteOneThrows e (doc_id t) (endpoint sub))
     \<or> saveThrows e (doc_id t)"

text \<open>The documents saved by the loop: those of the tasks before the first throw.\<close>

fun savedIds :: "env \<Rightarrow> subscription list \<Rightarrow> task list \<Rightarrow> nat set" where
  "savedIds e subs [] = {}"
| "savedIds e subs (t # rest) =
     (if taskThrows e subs t then {} else insert (doc_id t) (savedIds e subs rest))"

text \<open>
  Reading back what \<open>JSON_stringify\<close> writes, to state what a payload denotes: a reader
  for a JSON string (its escapes undone; \<^verbatim>\<open>\u\<close> escapes are read below \<open>0x100\<close>, one
  byte each) and for an object whose values are strings. \<open>readMembers\<close> takes the length
  of its input as fuel.
\<close>

definition hexVal :: "char \<Rightarrow> nat option" where
  "hexVal c =
     (let n = (of_char c :: nat) in
      if 48 \<le> n \<and> n \<le> 57 then Some (n - 48)
      else if 97 \<le> n \<and> n \<le> 102 then Some (n - 87)
      else if 65 \<le> n \<and> n \<le> 70 then Some (n - 55)
      else None)"

definition unescape :: "char \<Rightarrow> char option" where
  "unescape d =
     (if d = CHR 0x22 then Some (CHR 0x22)
      else if d = CHR 0x5C then Some (CHR 0x5C)
      else if d = CHR ''/'' then Some (CHR ''/'')
      else if d = CHR ''b'' then Some (CHR 0x08)
      else if d = CHR ''f'' then Some (CHR 0x0C)
      else if d = CHR ''n'' then Some (CHR 0x0A)
      else if d = CHR ''r'' then Some (CHR 0x0D)
      else if d = CHR ''t'' then Some (CHR 0x09)
      else None)"

definition consChar :: "char \<Rightarrow> (string \<times> string) option \<Rightarrow> (string \<times> string) option" where
  "consChar c r = map_option (\<lambda>(s, rest). (c # s, rest)) r"

fun readChars :: "string \<Rightarrow> (string \<times> string) option" where
  "readChars [] = None"
| "readChars (c # cs) =
     (if c = CHR 0x22 then Some ([], cs)
      else if c = CHR 0x5C then
        (case cs of
           [] \<Rightarrow> None
         | d # ds \<Rightarrow>
             if d = CHR ''u'' then
               (case ds of
                  a # b # x # y # rest \<Rightarrow>
                    if a = CHR ''0'' \<and> b = CHR ''0'' then
                      (case hexVal x of
                         None \<Rightarrow> None
                       | Some h \<Rightarrow>
                           (case hexVal y of
                              None \<Rightarrow> None
                            | Some l \<Rightarrow> consChar (char_of (16 * h + l)) (readChars rest)))
                    else None
                | _ \<Rightarrow> None)
             else
               (case unescape d of
                  None \<Rightarrow> None
                | Some u \<Rightarrow> consChar u (readChars ds)))
      else if (of_char c :: nat) < 32 then None
      else consChar c (readChars cs))"

definition readString :: "string \<Rightarrow> (string \<times> string) option" where
  "readString s = (case s of [] \<Rightarrow> None | c # cs \<Rightarrow> if c = CHR 0x22 then readChars cs else None)"

fun readMembers :: "nat \<Rightarrow> string \<Rightarrow> (string \<times> string) list option" where
  "readMembers 0 s = None"
| "readMembers (Suc n) s =
     (case readString s of
        None \<Rightarrow> None
      | Some (k, r1) \<Rightarrow>
          (case r1 of
             [] \<Rightarrow> None
           | c # r2 \<Rightarrow>
               if c = CHR '':'' then
                 (case readString r2 of
                    None \<Rightarrow> None
                  | Some (v, r3) \<Rightarrow>
                      (case r3 of
                         [] \<Rightarrow> None
                       | d # r4 \<Rightarrow>
                           if d = CHR ''}'' \<and> r4 = [] then Some [(k, v)]
                           else if d = CHR '','' then map_option ((#) (k, v)) (readMembers n r4)
                           else None))
               else None))"

definition readObject :: "string \<Rightarrow> (string \<times> string) list option" where
  "readObject s =
     (case s of
        [] \<Rightarrow> None
      | c # r \<Rightarrow>
          if c = CHR ''{'' then (if r = ''}'' then Some [] else readMembers (length r) r)
          else None)"

subsection \<open>Sample data\<close>

text \<open>
  A clock, a parser and documents to run the definitions on. \<open>sampleParse\<close> knows two
  date strings, 1 January 2024 at 10:00 and at 11:00 in a zone that is on UTC, which are
  \<open>1704103200000\<close> and \<open>1704106800000\<close> milliseconds after the epoch.
\<close>

definition sampleParse :: "string \<Rightarrow> int option" where
  "sampleParse s =
     (if s = ''2024-01-01T10:00:00'' then Some 1704103200000
      else if s = ''2024-01-01T11:00:00'' then Some 1704106800000
      else None)"

definition sampleEnv :: "int \<Rightarrow> env" where
  "sampleEnv t =
     \<lparr>readyState = 1, now = t, parseDate = sampleParse,
      findSubscriptionsThrows = False, findTasksThrows = False,
      pushOutcome = (\<lambda>i sub p. Delivered),
      deleteOneThrows = (\<lambda>i ep. False), saveThrows = (\<lambda>i. False)\<rparr>"

definition sampleTask :: task where
  "sampleTask =
     \<lparr>doc_id = 1, title = Some ''Stand-up'', date = Some ''2024-01-01'',
      startTime = Some ''10:00'', completed = Some False, reminderOffset = Some 5,
      notified = False\<rparr>"

definition sampleSub :: subscription where
  "sampleSub = \<lparr>endpoint = ''https://push.example/a'', keys = (''p256dh-a'', ''auth-a'')\<rparr>"

definition sampleSub2 :: subscription where
  "sampleSub2 = \<lparr>endpoint = ''https://push.example/b'', keys = (''p256dh-b'', ''auth-b'')\<rparr>"

definition sampleStore :: store where
  "sampleStore = \<lparr>subscriptions = [sampleSub], tasks = [sampleTask]\<rparr>"

text \<open>A total outage of the push service: no push gets through, none with a status.\<close>

definition outageEnv :: "int \<Rightarrow> env" where
  "outageEnv t = (sampleEnv t)\<lparr>pushOutcome := (\<lambda>i sub p. Rejected None ''connect ETIMEDOUT'')\<rparr>"

text \<open>A store nobody has subscribed to, with the sample task pending.\<close>

definition noSubscriberStore :: store where
  "noSubscriberStore = \<lparr>subscriptions = [], tasks = [sampleTask]\<rparr>"

text \<open>
  Two pending tasks and one subscriber whose endpoint is gone, under a store that throws
  on the save of the second task.
\<close>

definition twoTaskStore :: store where
  "twoTaskStore = \<lparr>subscriptions = [sampleSub], tasks = [sampleTask, sampleTask\<lparr>doc_id := 2\<rparr>]\<rparr>"

definition brokenSaveEnv :: "int \<Rightarrow> env" where
  "brokenSaveEnv t = (sampleEnv t)
     \<lparr>pushOutcome := (\<lambda>i sub p. Rejected (Some 410) ''Gone''), saveThrows := (\<lambda>i. i = 2)\<rparr>"

text \<open>
  Variants of the sample task: one whose date does not parse, one with the reminder
  switched off, one that is completed, one without an offset.
\<close>

definition malformedTask :: task where
  "malformedTask = sampleTask\<lparr>doc_id := 7, date := Some ''2024-13-45''\<rparr>"

definition disabledTask :: task where
  "disabledTask = sampleTask\<lparr>doc_id := 3, reminderOffset := Some (- 1)\<rparr>"

definition completedTask :: task where
  "completedTask = sampleTask\<lparr>doc_id := 4, completed := Some True\<rparr>"

definition defaultOffsetTask :: task where
  "defaultOffsetTask = sampleTask\<lparr>doc_id := 5, reminderOffset := None\<rparr>"

text \<open>The sample task an hour later, and with offsets of 15 and of \<open>-2\<close> minutes.\<close>

definition lateTask :: task where
  "lateTask = sampleTask\<lparr>doc_id := 6, startTime := Some ''11:00''\<rparr>"

definition quarterTask :: task where
  "quarterTask = sampleTask\<lparr>doc_id := 8, reminderOffset := Some 15\<rparr>"

definition afterStartTask :: task where
  "afterStartTask = sampleTask\<lparr>doc_id := 9, reminderOffset := Some (- 2)\<rparr>"

text \<open>The sample task under a title with two quotation marks and a line feed.\<close>

definition quotedTask :: task where
  "quotedTask = sampleTask\<lparr>doc_id := 10,
     title := Some (''Say '' @ [CHR 0x22] @ ''hi'' @ [CHR 0x22, CHR 0x0A])\<rparr>"

text \<open>
  Two more push services: one that answers 410 for every endpoint, one that answers 410
  for the first sample endpoint and 500 for any other; and a store with both sample
  subscribers.
\<close>

definition goneEnv :: "int \<Rightarrow> env" where
  "goneEnv t = (sampleEnv t)\<lparr>pushOutcome := (\<lambda>i sub p. Rejected (Some 410) ''Gone'')\<rparr>"

definition mixedEnv :: "int \<Rightarrow> env" where
  "mixedEnv t = (sampleEnv t)
     \<lparr>pushOutcome := (\<lambda>i sub p.
        if endpoint sub = ''https://push.example/a'' then Rejected (Some 410) ''Gone''
        else Rejected (Some 500) ''Internal Server Error'')\<rparr>"

definition twoSubscriberStore :: store where
  "twoSubscriberStore = \<lparr>subscriptions = [sampleSub, sampleSub2], tasks = [sampleTask]\<rparr>"

section \<open>Properties\<close>

declare showNat.simps [simp del]

subsection \<open>Minute buckets\<close>

lemma floorMinute_mod: "floorMinute v = v - v mod 60000"
  unfolding floorMinute_def by (simp add: minus_mod_eq_div_mult)

lemma floorMinute_le: "floorMinute v \<le> v"
  by (simp add: floorMinute_mod)

lemma floorMinute_shift: "floorMinute (v - k * 60000) = floorMinute v - k * 60000"
proof -
  have "(v - k * 60000) div 60000 = v div 60000 - k"
    using div_mult_self4 [of 60000 "- k" v] by (simp add: algebra_simps)
  then show ?thesis unfolding floorMinute_def by (simp add: algebra_simps)
qed

lemma floorMinute_mono: "a \<le> b \<Longrightarrow> floorMinute a \<le> floorMinute b"
  unfolding floorMinute_def by (simp add: zdiv_mono1)

lemma floorMinute_maxTime: "floorMinute maxTime = maxTime"
  unfolding floorMinute_def maxTime_def by simp

lemma floorMinute_minus_maxTime: "floorMinute (- maxTime) = - maxTime"
  unfolding floorMinute_def maxTime_def by simp

lemma floorMinute_above: "maxTime < v \<Longrightarrow> maxTime \<le> floorMinute v"
  using floorMinute_mono [of maxTime v] by (simp add: floorMinute_maxTime)

lemma floorMinute_below: "- maxTime \<le> v \<Longrightarrow> - maxTime \<le> floorMinute v"
  using floorMinute_mono [of "- maxTime" v] by (simp add: floorMinute_minus_maxTime)

text \<open>
  A trigger beyond the range of \<^verbatim>\<open>Date\<close> is \<^verbatim>\<open>NaN\<close> in the source; its bucket, taken
  as a number, is not the bucket of a valid clock either.
\<close>

lemma bucket_out_of_range:
  assumes "- maxTime \<le> now e" "now e < maxTime" "\<not> \<bar>v\<bar> \<le> maxTime"
  shows "floorMinute (now e) \<noteq> floorMinute v"
proof (cases "maxTime < v")
  case True
  then have "maxTime \<le> floorMinute v" by (rule floorMinute_above)
  moreover have "floorMinute (now e) \<le> now e" by (rule floorMinute_le)
  ultimately show ?thesis using assms(2) by linarith
next
  case False
  with assms(3) have "v < - maxTime" by linarith
  moreover have "floorMinute v \<le> v" by (rule floorMinute_le)
  moreover have "- maxTime \<le> floorMinute (now e)" using assms(1) by (rule floorMinute_below)
  ultimately show ?thesis by linarith
qed

lemma isDue_buckets:
  assumes "- maxTime \<le> now e" "now e < maxTime"
  shows "isDue e t \<longleftrightarrow>
     (\<exists>start. parseDate e (taskTimeStr t) = Some start \<and>
        currentTimestamp e =
          floorMinute (start - (case reminderOffset t of None \<Rightarrow> 5 | Some v \<Rightarrow> v) * 60000))"
proof (cases "parseDate e (taskTimeStr t)")
  case None
  then show ?thesis by (simp add: isDue_def)
next
  case (Some start)
  show ?thesis
  proof (cases "\<bar>start - (case reminderOffset t of None \<Rightarrow> 5 | Some v \<Rightarrow> v) * 60000\<bar> \<le> maxTime")
    case True
    with Some show ?thesis
      by (simp add: isDue_def newDate_def currentTimestamp_def Let_def)
  next
    case False
    from bucket_out_of_range [OF assms False] False Some show ?thesis
      by (simp add: isDue_def newDate_def currentTimestamp_def Let_def)
  qed
qed

subsection \<open>The store under dispatch\<close>

lemma deleteOne_subset: "set (deleteOne ep xs) \<subseteq> set xs"
  by (induction xs) auto

lemma deleteOne_filter:
  "distinct (map endpoint xs) \<Longrightarrow> deleteOne ep xs = filter (\<lambda>x. endpoint x \<noteq> ep) xs"
proof (induction xs)
  case Nil
  show ?case by simp
next
  case (Cons x xs)
  show ?case
  proof (cases "endpoint x = ep")
    case True
    with Cons.prems have "ep \<notin> endpoint ` set xs" by simp
    then have "\<forall>y \<in> set xs. endpoint y \<noteq> ep" by blast
    then have "filter (\<lambda>x. endpoint x \<noteq> ep) xs = xs" by (simp add: filter_id_conv)
    with True show ?thesis by simp
  next
    case False
    with Cons show ?thesis by simp
  qed
qed

lemma markNotified_markSet: "markNotified i ts = markSet {i} ts"
  by (simp add: markNotified_def markSet_def)

lemma markSet_empty: "markSet {} ts = ts"
  by (simp add: markSet_def)

lemma markSet_markSet: "markSet A (markSet B ts) = markSet (A \<union> B) ts"
  by (auto simp: markSet_def)

lemma markSet_append: "markSet S (xs @ ys) = markSet S xs @ markSet S ys"
  by (simp add: markSet_def)

lemma markSet_Cons_other: "doc_id t \<notin> S \<Longrightarrow> markSet S (t # ys) = t # markSet S ys"
  by (simp add: markSet_def)

lemma markSet_ids: "map doc_id (markSet S ts) = map doc_id ts"
  by (simp add: markSet_def)

lemma markSet_length: "length (markSet S ts) = length ts"
  by (simp add: markSet_def)

lemma settle_store:
  "fst (settle e i p sub db) =
     (if permanentGone (pushOutcome e i sub p) \<and> \<not> deleteOneThrows e i (endpoint sub)
      then db\<lparr>subscriptions := deleteOne (endpoint sub) (subscriptions db)\<rparr> else db)"
  by (simp add: settle_def onRejected_def permanentGone_def split: send_result.splits)

lemma settle_events:
  "fst (snd (settle e i p sub db)) =
     (case pushOutcome e i sub p of
        Delivered \<Rightarrow> []
      | Rejected c m \<Rightarrow>
          if c = Some 410 \<or> c = Some 404 then [SubscriptionDeleteOne (endpoint sub)]
          else [LogPushError m])"
  by (simp add: settle_def onRejected_def split: send_result.splits)

lemma settle_threw:
  "snd (snd (settle e i p sub db)) \<longleftrightarrow>
     permanentGone (pushOutcome e i sub p) \<and> deleteOneThrows e i (endpoint sub)"
  by (simp add: settle_def onRejected_def permanentGone_def split: send_result.splits)

lemma promiseAll_Cons:
  "promiseAll e i p (sub # subs) db =
     (fst (promiseAll e i p subs (fst (settle e i p sub db))),
      fst (snd (settle e i p sub db)) @ fst (snd (promiseAll e i p subs (fst (settle e i p sub db)))),
      snd (snd (settle e i p sub db)) \<or> snd (snd (promiseAll e i p subs (fst (settle e i p sub db)))))"
  by (simp split: prod.splits)

lemmas [simp del] = promiseAll.simps(2)

lemma promiseAll_tasks: "tasks (fst (promiseAll e i p subs db)) = tasks db"
  by (induction subs arbitrary: db) (simp_all add: promiseAll_Cons settle_store)

lemma promiseAll_subset:
  "set (subscriptions (fst (promiseAll e i p subs db))) \<subseteq> set (subscriptions db)"
proof (induction subs arbitrary: db)
  case Nil
  show ?case by simp
next
  case (Cons sub subs)
  have "set (subscriptions (fst (settle e i p sub db))) \<subseteq> set (subscriptions db)"
    using deleteOne_subset [of "endpoint sub" "subscriptions db"] by (simp add: settle_store)
  with Cons [of "fst (settle e i p sub db)"] show ?case
    by (simp add: promiseAll_Cons)
qed

lemma promiseAll_events:
  "fst (snd (promiseAll e i p subs db)) = concat (map (\<lambda>sub. fst (snd (settle e i p sub db0))) subs)"
proof (induction subs arbitrary: db)
  case Nil
  show ?case by simp
next
  case (Cons sub subs)
  have "fst (snd (settle e i p sub db)) = fst (snd (settle e i p sub db0))"
    by (simp add: settle_events)
  with Cons show ?case by (simp add: promiseAll_Cons)
qed

lemma promiseAll_threw:
  "snd (snd (promiseAll e i p subs db)) \<longleftrightarrow>
     (\<exists>sub \<in> set subs. permanentGone (pushOutcome e i sub p) \<and> deleteOneThrows e i (endpoint sub))"
  by (induction subs arbitrary: db) (auto simp: promiseAll_Cons settle_threw)

lemma promiseAll_subscriptions:
  "distinct (map endpoint (subscriptions db)) \<Longrightarrow>
   subscriptions (fst (promiseAll e i p subs db)) =
     filter (\<lambda>x. endpoint x \<notin> removed e i p subs) (subscriptions db)"
proof (induction subs arbitrary: db)
  case Nil
  show ?case by (simp add: removed_def)
next
  case (Cons sub subs)
  let ?db1 = "fst (settle e i p sub db)"
  show ?case
  proof (cases "permanentGone (pushOutcome e i sub p) \<and> \<not> deleteOneThrows e i (endpoint sub)")
    case True
    then have s1: "subscriptions ?db1 = filter (\<lambda>x. endpoint x \<noteq> endpoint sub) (subscriptions db)"
      using deleteOne_filter [OF Cons.prems] by (simp add: settle_store)
    then have "distinct (map endpoint (subscriptions ?db1))"
      using Cons.prems by (simp add: distinct_map_filter)
    from Cons.IH [OF this] s1 True show ?thesis
      by (auto simp: promiseAll_Cons removed_def intro!: filter_cong)
  next
    case False
    then have s1: "?db1 = db" by (auto simp: settle_store)
    from False have "removed e i p (sub # subs) = removed e i p subs"
      by (auto simp: removed_def)
    with Cons.IH [of db] Cons.prems s1 show ?thesis
      by (simp add: promiseAll_Cons)
  qed
qed

lemma settle_snd_indep: "snd (settle e i p sub db) = snd (settle e i p sub db')"
  by (simp add: settle_def onRejected_def split: send_result.splits)

lemma promiseAll_snd_indep: "snd (promiseAll e i p subs db) = snd (promiseAll e i p subs db')"
proof (rule prod_eqI)
  show "fst (snd (promiseAll e i p subs db)) = fst (snd (promiseAll e i p subs db'))"
    using promiseAll_events [of e i p subs db db'] promiseAll_events [of e i p subs db' db']
    by simp
  show "snd (snd (promiseAll e i p subs db)) = snd (snd (promiseAll e i p subs db'))"
    by (simp add: promiseAll_threw)
qed

lemma settle_tasks_indep:
  "fst (settle e i p sub (db\<lparr>tasks := ts\<rparr>)) = (fst (settle e i p sub db))\<lparr>tasks := ts\<rparr>"
  by (simp add: settle_store)

lemma promiseAll_tasks_indep:
  "fst (promiseAll e i p subs (db\<lparr>tasks := ts\<rparr>)) = (fst (promiseAll e i p subs db))\<lparr>tasks := ts\<rparr>"
  by (induction subs arbitrary: db) (simp_all add: promiseAll_Cons settle_tasks_indep)

lemma notifyTask_threw: "snd (snd (notifyTask e subs t db)) \<longleftrightarrow> taskThrows e subs t"
  using promiseAll_threw [of e "doc_id t" "payload t" subs db]
  by (auto simp: notifyTask_def taskThrows_def Let_def split: prod.splits)

lemma notifyTask_store:
  "fst (notifyTask e subs t db) =
     (if taskThrows e subs t then fst (promiseAll e (doc_id t) (payload t) subs db)
      else (fst (promiseAll e (doc_id t) (payload t) subs db))
             \<lparr>tasks := markNotified (doc_id t) (tasks db)\<rparr>)"
  using promiseAll_threw [of e "doc_id t" "payload t" subs db]
    promiseAll_tasks [of e "doc_id t" "payload t" subs db]
  by (auto simp: notifyTask_def taskThrows_def Let_def split: prod.splits)

lemma notifyTask_events:
  "fst (snd (notifyTask e subs t db)) =
     map (\<lambda>sub. SendNotification (endpoint sub) (payload t)) subs
     @ fst (snd (promiseAll e (doc_id t) (payload t) subs db))
     @ (if snd (snd (promiseAll e (doc_id t) (payload t) subs db)) then [] else [TaskSave (doc_id t)])"
  by (auto simp: notifyTask_def Let_def split: prod.splits)

lemma notifyTask_snd_indep: "snd (notifyTask e subs t db) = snd (notifyTask e subs t db')"
proof (rule prod_eqI)
  show "fst (snd (notifyTask e subs t db)) = fst (snd (notifyTask e subs t db'))"
    using promiseAll_snd_indep [of e "doc_id t" "payload t" subs db db']
    by (simp add: notifyTask_events)
  show "snd (snd (notifyTask e subs t db)) = snd (snd (notifyTask e subs t db'))"
    by (simp add: notifyTask_threw)
qed

lemma notifyTask_tasks:
  "tasks (fst (notifyTask e subs t db)) =
     markSet (if taskThrows e subs t then {} else {doc_id t}) (tasks db)"
  by (simp add: notifyTask_store promiseAll_tasks markSet_empty markNotified_markSet)

lemma notifyTask_subscriptions:
  "subscriptions (fst (notifyTask e subs t db)) =
     subscriptions (fst (promiseAll e (doc_id t) (payload t) subs db))"
  by (simp add: notifyTask_store)

lemma notifyTask_tasks_indep:
  "fst (notifyTask e subs t (db\<lparr>tasks := ts\<rparr>)) =
     (fst (notifyTask e subs t db))
       \<lparr>tasks := markSet (if taskThrows e subs t then {} else {doc_id t}) ts\<rparr>"
  by (simp add: notifyTask_store promiseAll_tasks_indep markSet_empty markNotified_markSet)

lemma notifyLoop_Cons:
  "notifyLoop e subs (t # rest) db =
     (if taskThrows e subs t
      then (fst (notifyTask e subs t db), fst (snd (notifyTask e subs t db)), True)
      else (fst (notifyLoop e subs rest (fst (notifyTask e subs t db))),
            fst (snd (notifyTask e subs t db))
              @ fst (snd (notifyLoop e subs rest (fst (notifyTask e subs t db)))),
            snd (snd (notifyLoop e subs rest (fst (notifyTask e subs t db))))))"
  using notifyTask_threw [of e subs t db] by (auto split: prod.splits)

lemmas [simp del] = notifyLoop.simps(2)

lemma notifyLoop_threw:
  "snd (snd (notifyLoop e subs due db)) \<longleftrightarrow> (\<exists>t \<in> set due. taskThrows e subs t)"
  by (induction due arbitrary: db) (auto simp: notifyLoop_Cons)

lemma notifyLoop_snd_indep: "snd (notifyLoop e subs due db) = snd (notifyLoop e subs due db')"
proof (induction due arbitrary: db db')
  case Nil
  show ?case by simp
next
  case (Cons t rest)
  have a: "snd (notifyTask e subs t db) = snd (notifyTask e subs t db')"
    by (rule notifyTask_snd_indep)
  have b: "snd (notifyLoop e subs rest (fst (notifyTask e subs t db)))
         = snd (notifyLoop e subs rest (fst (notifyTask e subs t db')))"
    by (rule Cons.IH)
  show ?case using a b by (simp add: notifyLoop_Cons)
qed

lemma notifyLoop_tasks_indep:
  "fst (notifyLoop e subs due (db\<lparr>tasks := ts\<rparr>)) =
     (fst (notifyLoop e subs due db))\<lparr>tasks := markSet (savedIds e subs due) ts\<rparr>"
proof (induction due arbitrary: db ts)
  case Nil
  show ?case by (simp add: markSet_empty)
next
  case (Cons t rest)
  show ?case
  proof (cases "taskThrows e subs t")
    case True
    then show ?thesis by (simp add: notifyLoop_Cons notifyTask_tasks_indep)
  next
    case False
    then show ?thesis
      using Cons.IH [where db = "fst (notifyTask e subs t db)" and ts = "markSet {doc_id t} ts"]
      by (simp add: notifyLoop_Cons notifyTask_tasks_indep markSet_markSet Un_commute)
  qed
qed

lemma notifyLoop_tasks:
  "tasks (fst (notifyLoop e subs due db)) = markSet (savedIds e subs due) (tasks db)"
proof -
  have "tasks (fst (notifyLoop e subs due (db\<lparr>tasks := tasks db\<rparr>))) =
      tasks ((fst (notifyLoop e subs due db))\<lparr>tasks := markSet (savedIds e subs due) (tasks db)\<rparr>)"
    by (simp only: notifyLoop_tasks_indep)
  then show ?thesis by simp
qed

lemma savedIds_subset: "savedIds e subs due \<subseteq> doc_id ` set due"
  by (induction due) auto

lemma savedIds_all:
  "\<forall>t \<in> set due. \<not> taskThrows e subs t \<Longrightarrow> savedIds e subs due = doc_id ` set due"
  by (induction due) auto

lemma notifyLoop_subset:
  "set (subscriptions (fst (notifyLoop e subs due db))) \<subseteq> set (subscriptions db)"
proof (induction due arbitrary: db)
  case Nil
  show ?case by simp
next
  case (Cons t rest)
  have "set (subscriptions (fst (notifyTask e subs t db))) \<subseteq> set (subscriptions db)"
    by (simp add: notifyTask_subscriptions promiseAll_subset)
  with Cons [of "fst (notifyTask e subs t db)"] show ?case
    by (auto simp: notifyLoop_Cons)
qed

lemma notifyLoop_subscriptions:
  assumes "distinct (map endpoint (subscriptions db))" "\<forall>t \<in> set due. \<not> taskThrows e subs t"
  shows "subscriptions (fst (notifyLoop e subs due db)) =
     filter (\<lambda>x. endpoint x \<notin> (\<Union>t \<in> set due. removed e (doc_id t) (payload t) subs))
       (subscriptions db)"
  using assms
proof (induction due arbitrary: db)
  case Nil
  show ?case by simp
next
  case (Cons t rest)
  let ?db1 = "fst (notifyTask e subs t db)"
  have s1: "subscriptions ?db1 =
      filter (\<lambda>x. endpoint x \<notin> removed e (doc_id t) (payload t) subs) (subscriptions db)"
    using Cons.prems(1) by (simp add: notifyTask_subscriptions promiseAll_subscriptions)
  then have "distinct (map endpoint (subscriptions ?db1))"
    using Cons.prems(1) by (simp add: distinct_map_filter)
  from Cons.IH [OF this] Cons.prems(2) s1 show ?case
    by (auto simp: notifyLoop_Cons intro!: filter_cong)
qed

lemma notifyLoop_events:
  assumes "\<forall>t \<in> set due. \<not> taskThrows e subs t" "t \<in> set due"
  shows "set (fst (snd (notifyTask e subs t db'))) \<subseteq> set (fst (snd (notifyLoop e subs due db)))"
  using assms
proof (induction due arbitrary: db)
  case Nil
  then show ?case by simp
next
  case (Cons u rest)
  show ?case
  proof (cases "t = u")
    case True
    have "fst (snd (notifyTask e subs u db')) = fst (snd (notifyTask e subs u db))"
      using notifyTask_snd_indep [of e subs u db' db] by simp
    with True Cons.prems(1) show ?thesis by (simp add: notifyLoop_Cons)
  next
    case False
    with Cons.prems have "t \<in> set rest" "\<forall>t \<in> set rest. \<not> taskThrows e subs t" by auto
    from Cons.IH [OF this(2) this(1)] Cons.prems(1) show ?thesis
      by (auto simp: notifyLoop_Cons)
  qed
qed

subsection \<open>The tick\<close>

lemma tick_unfold:
  "tick e db =
     (if readyState e \<noteq> 1 then (db, [])
      else if findSubscriptionsThrows e then (db, [SubscriptionFind, LogLoopError])
      else if subscriptions db = [] then (db, [SubscriptionFind])
      else if findTasksThrows e then (db, [SubscriptionFind, TaskFind, LogLoopError])
      else if tasksToNotify e (tasks db) = [] then (db, [SubscriptionFind, TaskFind])
      else (fst (notifyLoop e (subscriptions db) (tasksToNotify e (tasks db)) db),
            [SubscriptionFind, TaskFind, LogFound (length (tasksToNotify e (tasks db)))]
              @ fst (snd (notifyLoop e (subscriptions db) (tasksToNotify e (tasks db)) db))
              @ (if snd (snd (notifyLoop e (subscriptions db) (tasksToNotify e (tasks db)) db))
                 then [LogLoopError] else [])))"
  unfolding tick_def Let_def case_prod_unfold by simp

lemma tick_running:
  assumes "readyState e = 1" "\<not> findSubscriptionsThrows e" "\<not> findTasksThrows e"
    "subscriptions db \<noteq> []" "tasksToNotify e (tasks db) \<noteq> []"
  shows "tick e db =
    (fst (notifyLoop e (subscriptions db) (tasksToNotify e (tasks db)) db),
     [SubscriptionFind, TaskFind, LogFound (length (tasksToNotify e (tasks db)))]
       @ fst (snd (notifyLoop e (subscriptions db) (tasksToNotify e (tasks db)) db))
       @ (if snd (snd (notifyLoop e (subscriptions db) (tasksToNotify e (tasks db)) db))
          then [LogLoopError] else []))"
  using assms by (simp only: tick_unfold if_False simp_thms)

lemma tick_idle:
  assumes "readyState e \<noteq> 1 \<or> findSubscriptionsThrows e \<or> findTasksThrows e
    \<or> subscriptions db = [] \<or> tasksToNotify e (tasks db) = []"
  shows "fst (tick e db) = db"
  using assms by (auto simp: tick_unfold)

lemma tick_tasks_saved:
  "tasks (fst (tick e db)) =
     markSet (if readyState e = 1 \<and> \<not> findSubscriptionsThrows e \<and> \<not> findTasksThrows e
                 \<and> subscriptions db \<noteq> []
              then savedIds e (subscriptions db) (tasksToNotify e (tasks db)) else {}) (tasks db)"
  by (simp add: tick_unfold notifyLoop_tasks markSet_empty)

lemma tick_tasks:
  "\<exists>S. S \<subseteq> doc_id ` set (tasksToNotify e (tasks db)) \<and> tasks (fst (tick e db)) = markSet S (tasks db)"
proof (intro exI conjI)
  show "tasks (fst (tick e db)) =
     markSet (if readyState e = 1 \<and> \<not> findSubscriptionsThrows e \<and> \<not> findTasksThrows e
                 \<and> subscriptions db \<noteq> []
              then savedIds e (subscriptions db) (tasksToNotify e (tasks db)) else {}) (tasks db)"
    by (rule tick_tasks_saved)
  show "(if readyState e = 1 \<and> \<not> findSubscriptionsThrows e \<and> \<not> findTasksThrows e
                 \<and> subscriptions db \<noteq> []
              then savedIds e (subscriptions db) (tasksToNotify e (tasks db)) else {})
        \<subseteq> doc_id ` set (tasksToNotify e (tasks db))"
    using savedIds_subset [of e "subscriptions db" "tasksToNotify e (tasks db)"] by simp
qed

lemma tick_subscriptions_subset:
  "set (subscriptions (fst (tick e db))) \<subseteq> set (subscriptions db)"
  by (simp add: tick_unfold notifyLoop_subset)

lemma storeResponds_no_throw: "storeResponds e \<Longrightarrow> \<not> taskThrows e subs t"
  by (simp add: storeResponds_def taskThrows_def)

lemma tick_responding:
  assumes "storeResponds e" "subscriptions db \<noteq> []" "tasksToNotify e (tasks db) \<noteq> []"
  shows "tick e db =
    (fst (notifyLoop e (subscriptions db) (tasksToNotify e (tasks db)) db),
     [SubscriptionFind, TaskFind, LogFound (length (tasksToNotify e (tasks db)))]
       @ fst (snd (notifyLoop e (subscriptions db) (tasksToNotify e (tasks db)) db)))"
proof -
  have "\<not> snd (snd (notifyLoop e (subscriptions db) (tasksToNotify e (tasks db)) db))"
    using assms(1) by (simp add: notifyLoop_threw storeResponds_no_throw)
  moreover have "readyState e = 1" "\<not> findSubscriptionsThrows e" "\<not> findTasksThrows e"
    using assms(1) by (simp_all add: storeResponds_def)
  ultimately show ?thesis using assms(2,3) by (simp add: tick_running)
qed

lemma tick_responding_tasks:
  assumes "storeResponds e" "subscriptions db \<noteq> []"
  shows "tasks (fst (tick e db)) = markSet (doc_id ` set (tasksToNotify e (tasks db))) (tasks db)"
proof (cases "tasksToNotify e (tasks db) = []")
  case True
  then have "fst (tick e db) = db" by (simp add: tick_unfold)
  with True show ?thesis by (simp add: markSet_empty)
next
  case False
  have "savedIds e (subscriptions db) (tasksToNotify e (tasks db))
      = doc_id ` set (tasksToNotify e (tasks db))"
    using assms(1) by (intro savedIds_all) (simp add: storeResponds_no_throw)
  with False assms show ?thesis by (simp add: tick_responding notifyLoop_tasks)
qed

lemma markSet_notified:
  "d \<in> set (markSet S ts) \<Longrightarrow> doc_id d \<in> S \<Longrightarrow> notified d"
  by (auto simp: markSet_def split: if_splits)

lemma markSet_keeps_notified:
  "\<forall>d \<in> set ts. doc_id d = i \<longrightarrow> notified d \<Longrightarrow> \<forall>d \<in> set (markSet S ts). doc_id d = i \<longrightarrow> notified d"
  by (auto simp: markSet_def split: if_splits)

lemma tick_keeps_notified:
  assumes "\<forall>d \<in> set (tasks db). doc_id d = i \<longrightarrow> notified d"
  shows "\<forall>d \<in> set (tasks (fst (tick e db))). doc_id d = i \<longrightarrow> notified d"
proof -
  obtain S where "tasks (fst (tick e db)) = markSet S (tasks db)"
    using tick_tasks by blast
  with markSet_keeps_notified [OF assms] show ?thesis by simp
qed

lemma ticks_keep_notified:
  "\<forall>d \<in> set (tasks db). doc_id d = i \<longrightarrow> notified d \<Longrightarrow>
   \<forall>d \<in> set (tasks (ticks es db)). doc_id d = i \<longrightarrow> notified d"
proof (induction es arbitrary: db)
  case Nil
  then show ?case by simp
next
  case (Cons e es)
  from Cons.IH [OF tick_keeps_notified [OF Cons.prems]] show ?case by simp
qed

lemma tasksToNotify_unnotified:
  "d \<in> set (tasksToNotify e ts) \<Longrightarrow> d \<in> set ts \<and> \<not> notified d"
  by (simp add: tasksToNotify_def findCandidates_def)

lemma tick_sends:
  assumes "storeResponds e" "t \<in> set (tasksToNotify e (tasks db))" "sub \<in> set (subscriptions db)"
  shows "SendNotification (endpoint sub) (payload t) \<in> set (snd (tick e db))"
    and "TaskSave (doc_id t) \<in> set (snd (tick e db))"
proof -
  let ?subs = "subscriptions db" and ?due = "tasksToNotify e (tasks db)"
  have ne: "?subs \<noteq> []" "?due \<noteq> []" using assms(2,3) by auto
  have nt: "\<forall>t \<in> set ?due. \<not> taskThrows e ?subs t"
    using assms(1) by (simp add: storeResponds_no_throw)
  have sub: "set (fst (snd (notifyTask e ?subs t db))) \<subseteq> set (fst (snd (notifyLoop e ?subs ?due db)))"
    using nt assms(2) by (rule notifyLoop_events)
  have "\<not> snd (snd (promiseAll e (doc_id t) (payload t) ?subs db))"
    using assms(1) by (simp add: promiseAll_threw storeResponds_def)
  then have "SendNotification (endpoint sub) (payload t) \<in> set (fst (snd (notifyTask e ?subs t db)))"
    "TaskSave (doc_id t) \<in> set (fst (snd (notifyTask e ?subs t db)))"
    using assms(3) by (auto simp: notifyTask_events)
  with sub show "SendNotification (endpoint sub) (payload t) \<in> set (snd (tick e db))"
    and "TaskSave (doc_id t) \<in> set (snd (tick e db))"
    using assms(1) ne by (auto simp: tick_responding)
qed

subsection \<open>The events of a tick\<close>

lemma promiseAll_event_kinds:
  "x \<in> set (fst (snd (promiseAll e i p subs db))) \<Longrightarrow>
     (\<exists>sub \<in> set subs. x = SubscriptionDeleteOne (endpoint sub)) \<or> (\<exists>m. x = LogPushError m)"
  by (auto simp: promiseAll_events [of e i p subs db db] settle_events
      split: send_result.splits if_splits)

lemma notifyTask_event_kinds:
  assumes "x \<in> set (fst (snd (notifyTask e subs t db)))"
  shows "(\<exists>sub \<in> set subs. x = SendNotification (endpoint sub) (payload t))
       \<or> (\<exists>sub \<in> set subs. x = SubscriptionDeleteOne (endpoint sub))
       \<or> (\<exists>m. x = LogPushError m) \<or> x = TaskSave (doc_id t)"
  using assms promiseAll_event_kinds [of x e "doc_id t" "payload t" subs db]
  by (auto simp: notifyTask_events split: if_splits)

lemma notifyLoop_event_origin:
  "x \<in> set (fst (snd (notifyLoop e subs due db))) \<Longrightarrow>
     \<exists>t \<in> set due. x \<in> set (fst (snd (notifyTask e subs t db')))"
proof (induction due arbitrary: db)
  case Nil
  then show ?case by simp
next
  case (Cons u rest)
  have eq: "fst (snd (notifyTask e subs u db)) = fst (snd (notifyTask e subs u db'))"
    using notifyTask_snd_indep [of e subs u db db'] by simp
  show ?case
  proof (cases "x \<in> set (fst (snd (notifyTask e subs u db)))")
    case True
    with eq show ?thesis by simp
  next
    case False
    with Cons.prems have "x \<in> set (fst (snd (notifyLoop e subs rest (fst (notifyTask e subs u db)))))"
      by (auto simp: notifyLoop_Cons split: if_splits)
    from Cons.IH [OF this] show ?thesis by auto
  qed
qed

lemma notifyLoop_event_kinds:
  assumes "x \<in> set (fst (snd (notifyLoop e subs due db)))"
  shows "(\<exists>t \<in> set due. \<exists>sub \<in> set subs. x = SendNotification (endpoint sub) (payload t))
       \<or> (\<exists>sub \<in> set subs. x = SubscriptionDeleteOne (endpoint sub))
       \<or> (\<exists>m. x = LogPushError m) \<or> (\<exists>t \<in> set due. x = TaskSave (doc_id t))"
proof -
  obtain t where t: "t \<in> set due" "x \<in> set (fst (snd (notifyTask e subs t db)))"
    using notifyLoop_event_origin [OF assms] by blast
  from notifyTask_event_kinds [OF t(2)] t(1) show ?thesis by blast
qed

lemma tick_event_kinds:
  assumes "x \<in> set (snd (tick e db))"
  shows "x \<in> {SubscriptionFind, TaskFind, LogLoopError, LogFound (length (tasksToNotify e (tasks db)))}
       \<or> (\<exists>t \<in> set (tasksToNotify e (tasks db)). \<exists>sub \<in> set (subscriptions db).
             x = SendNotification (endpoint sub) (payload t))
       \<or> (\<exists>sub \<in> set (subscriptions db). x = SubscriptionDeleteOne (endpoint sub))
       \<or> (\<exists>m. x = LogPushError m)
       \<or> (\<exists>t \<in> set (tasksToNotify e (tasks db)). x = TaskSave (doc_id t))"
proof (cases "x \<in> set (fst (snd (notifyLoop e (subscriptions db) (tasksToNotify e (tasks db)) db)))")
  case True
  from notifyLoop_event_kinds [OF this] show ?thesis by blast
next
  case False
  with assms have "x \<in> {SubscriptionFind, TaskFind, LogLoopError, LogFound (length (tasksToNotify e (tasks db)))}"
    by (auto simp: tick_unfold split: if_splits)
  then show ?thesis by blast
qed

lemma tick_loop_error:
  "LogLoopError \<in> set (snd (tick e db)) \<longleftrightarrow>
     readyState e = 1 \<and>
     (findSubscriptionsThrows e \<or>
      (subscriptions db \<noteq> [] \<and>
        (findTasksThrows e \<or> (\<exists>t \<in> set (tasksToNotify e (tasks db)). taskThrows e (subscriptions db) t))))"
proof -
  have "LogLoopError \<notin> set (fst (snd (notifyLoop e (subscriptions db) (tasksToNotify e (tasks db)) db)))"
    using notifyLoop_event_kinds [of LogLoopError e "subscriptions db" "tasksToNotify e (tasks db)" db]
    by auto
  then show ?thesis
    by (auto simp: tick_unfold notifyLoop_threw)
qed

text \<open>The definitions a concrete run unfolds.\<close>

lemmas run_simps =
  tick_unfold notifyLoop.simps notifyTask_def promiseAll.simps settle_def onRejected_def
  markNotified_def tasksToNotify_def findCandidates_def isDue_def newDate_def maxTime_def
  currentTimestamp_def floorMinute_def taskTimeStr_def js_str_def Let_def

subsection \<open>Tasks outside the selection\<close>

lemma markSet_other: "t \<in> set ts \<Longrightarrow> doc_id t \<notin> S \<Longrightarrow> t \<in> set (markSet S ts)"
  by (force simp: markSet_def)

lemma distinct_doc_id_unique:
  "distinct (map doc_id ts) \<Longrightarrow> t \<in> set ts \<Longrightarrow> u \<in> set ts \<Longrightarrow> doc_id t = doc_id u \<Longrightarrow> t = u"
  by (meson distinct_map inj_onD)

lemma tasksToNotify_subset: "set (tasksToNotify e ts) \<subseteq> set (findCandidates ts)"
  by (simp add: tasksToNotify_def)

lemma findCandidates_subset: "set (findCandidates ts) \<subseteq> set ts"
  by (simp add: findCandidates_def)

lemma not_selected_id:
  assumes "distinct (map doc_id ts)" "t \<in> set ts" "t \<notin> set (tasksToNotify e ts)"
  shows "doc_id t \<notin> doc_id ` set (tasksToNotify e ts)"
proof
  assume "doc_id t \<in> doc_id ` set (tasksToNotify e ts)"
  then obtain u where u: "u \<in> set (tasksToNotify e ts)" "doc_id t = doc_id u" by blast
  then have "u \<in> set ts" using tasksToNotify_subset findCandidates_subset by blast
  from distinct_doc_id_unique [OF assms(1,2) this u(2)] u(1) assms(3) show False by simp
qed

lemma tick_leaves_unselected:
  assumes "distinct (map doc_id (tasks db))" "t \<in> set (tasks db)"
    "t \<notin> set (tasksToNotify e (tasks db))"
  shows "t \<in> set (tasks (fst (tick e db)))" and "TaskSave (doc_id t) \<notin> set (snd (tick e db))"
proof -
  have nid: "doc_id t \<notin> doc_id ` set (tasksToNotify e (tasks db))"
    using assms by (rule not_selected_id)
  obtain S where S: "S \<subseteq> doc_id ` set (tasksToNotify e (tasks db))"
    "tasks (fst (tick e db)) = markSet S (tasks db)"
    using tick_tasks by blast
  from S(1) nid have "doc_id t \<notin> S" by blast
  with S(2) assms(2) show "t \<in> set (tasks (fst (tick e db)))" by (simp add: markSet_other)
  show "TaskSave (doc_id t) \<notin> set (snd (tick e db))"
  proof
    assume "TaskSave (doc_id t) \<in> set (snd (tick e db))"
    from tick_event_kinds [OF this] nid show False by auto
  qed
qed

subsection \<open>A task that does not parse\<close>

lemma tasksToNotify_skip:
  "\<not> isDue e t \<Longrightarrow> tasksToNotify e (xs @ t # ys) = tasksToNotify e (xs @ ys)"
  by (simp add: tasksToNotify_def findCandidates_def)

lemma notifyLoop_subscriptions_indep:
  "subscriptions (fst (notifyLoop e subs due (db\<lparr>tasks := ts\<rparr>)))
     = subscriptions (fst (notifyLoop e subs due db))"
  by (simp add: notifyLoop_tasks_indep)

lemma tick_events_tasks_indep:
  assumes "tasksToNotify e ts = tasksToNotify e ts'"
  shows "snd (tick e (db\<lparr>tasks := ts\<rparr>)) = snd (tick e (db\<lparr>tasks := ts'\<rparr>))"
  using assms
    notifyLoop_snd_indep [of e "subscriptions db" "tasksToNotify e ts'" "db\<lparr>tasks := ts\<rparr>" "db\<lparr>tasks := ts'\<rparr>"]
  by (simp add: tick_unfold)

lemma tick_subscriptions_tasks_indep:
  assumes "tasksToNotify e ts = tasksToNotify e ts'"
  shows "subscriptions (fst (tick e (db\<lparr>tasks := ts\<rparr>))) = subscriptions (fst (tick e (db\<lparr>tasks := ts'\<rparr>)))"
  using assms by (simp add: tick_unfold notifyLoop_subscriptions_indep)

subsection \<open>Rejected pushes\<close>

lemma removed_responding:
  "storeResponds e \<Longrightarrow>
   removed e i p subs = {endpoint s | s. s \<in> set subs \<and> permanentGone (pushOutcome e i s p)}"
  by (simp add: removed_def storeResponds_def)

lemma tick_responding_subscriptions:
  assumes "storeResponds e" "distinct (map endpoint (subscriptions db))"
  shows "subscriptions (fst (tick e db)) =
     filter (\<lambda>x. endpoint x \<notin>
                (\<Union>t \<in> set (tasksToNotify e (tasks db)).
                   {endpoint s | s. s \<in> set (subscriptions db)
                      \<and> permanentGone (pushOutcome e (doc_id t) s (payload t))}))
       (subscriptions db)"
proof (cases "subscriptions db = [] \<or> tasksToNotify e (tasks db) = []")
  case True
  then have "fst (tick e db) = db" by (auto simp: tick_unfold)
  with True show ?thesis by auto
next
  case False
  have nt: "\<forall>t \<in> set (tasksToNotify e (tasks db)). \<not> taskThrows e (subscriptions db) t"
    using assms(1) by (simp add: storeResponds_no_throw)
  from False assms(1) have "subscriptions (fst (tick e db)) =
      subscriptions (fst (notifyLoop e (subscriptions db) (tasksToNotify e (tasks db)) db))"
    by (simp add: tick_responding)
  also have "\<dots> = filter (\<lambda>x. endpoint x \<notin>
      (\<Union>t \<in> set (tasksToNotify e (tasks db)). removed e (doc_id t) (payload t) (subscriptions db)))
      (subscriptions db)"
    using assms(2) nt by (rule notifyLoop_subscriptions)
  finally show ?thesis using assms(1) by (simp add: removed_responding)
qed

lemma distinct_endpoint_unique:
  "distinct (map endpoint xs) \<Longrightarrow> s \<in> set xs \<Longrightarrow> u \<in> set xs \<Longrightarrow> endpoint s = endpoint u \<Longrightarrow> s = u"
  by (meson distinct_map inj_onD)

lemma promiseAll_has_event:
  assumes "sub \<in> set subs" "x \<in> set (fst (snd (settle e i p sub db)))"
  shows "x \<in> set (fst (snd (promiseAll e i p subs db)))"
proof -
  from assms have "x \<in> (\<Union>s \<in> set subs. set (fst (snd (settle e i p s db))))" by blast
  then show ?thesis by (simp add: promiseAll_events [of e i p subs db db])
qed

lemma promiseAll_logs:
  assumes "sub \<in> set subs" "pushOutcome e i sub p = Rejected c m" "c \<noteq> Some 410" "c \<noteq> Some 404"
  shows "LogPushError m \<in> set (fst (snd (promiseAll e i p subs db)))"
proof -
  have "fst (snd (settle e i p sub db)) = [LogPushError m]"
    using assms(2-4) by (simp add: settle_events)
  then have "LogPushError m \<in> set (fst (snd (settle e i p sub db)))" by simp
  with assms(1) show ?thesis by (rule promiseAll_has_event)
qed

lemma promiseAll_deletes:
  assumes "sub \<in> set subs" "permanentGone (pushOutcome e i sub p)"
  shows "SubscriptionDeleteOne (endpoint sub) \<in> set (fst (snd (promiseAll e i p subs db)))"
proof -
  have "fst (snd (settle e i p sub db)) = [SubscriptionDeleteOne (endpoint sub)]"
    using assms(2) by (cases "pushOutcome e i sub p") (auto simp: settle_events permanentGone_def)
  then have "SubscriptionDeleteOne (endpoint sub) \<in> set (fst (snd (settle e i p sub db)))" by simp
  with assms(1) show ?thesis by (rule promiseAll_has_event)
qed

lemma tick_handler_events:
  assumes "storeResponds e" "t \<in> set (tasksToNotify e (tasks db))" "sub \<in> set (subscriptions db)"
  shows "set (fst (snd (promiseAll e (doc_id t) (payload t) (subscriptions db) db)))
      \<subseteq> set (snd (tick e db))"
proof -
  let ?subs = "subscriptions db" and ?due = "tasksToNotify e (tasks db)"
  have ne: "?subs \<noteq> []" "?due \<noteq> []" using assms(2,3) by auto
  have nt: "\<forall>t \<in> set ?due. \<not> taskThrows e ?subs t"
    using assms(1) by (simp add: storeResponds_no_throw)
  have "set (fst (snd (notifyTask e ?subs t db))) \<subseteq> set (fst (snd (notifyLoop e ?subs ?due db)))"
    using nt assms(2) by (rule notifyLoop_events)
  then show ?thesis using assms(1) ne by (auto simp: tick_responding notifyTask_events)
qed

subsection \<open>Decimal numerals\<close>

lemma digitVal_digitChar: "d < 10 \<Longrightarrow> digitVal (digitChar d) = d"
  by (simp add: digitVal_def digitChar_def)

lemma readNat_snoc: "readNat (ds @ [c]) = 10 * readNat ds + digitVal c"
  by (simp add: readNat_def)

lemma readNat_showNat: "readNat (showNat n) = n"
proof (induction n rule: showNat.induct)
  case (1 n)
  show ?case
  proof (cases "n < 10")
    case True
    then show ?thesis
      by (simp add: showNat.simps [of n] readNat_def digitVal_digitChar)
  next
    case False
    with 1 have "readNat (showNat (n div 10)) = n div 10" by simp
    with False show ?thesis
      by (simp add: showNat.simps [of n] readNat_snoc digitVal_digitChar)
  qed
qed

lemma showNat_digits: "set (showNat n) \<subseteq> digitChar ` {0..<10}"
proof (induction n rule: showNat.induct)
  case (1 n)
  show ?case
  proof (cases "n < 10")
    case True
    then show ?thesis by (simp add: showNat.simps [of n])
  next
    case False
    with 1 have "set (showNat (n div 10)) \<subseteq> digitChar ` {0..<10}" by simp
    with False show ?thesis by (simp add: showNat.simps [of n])
  qed
qed

lemma showInt_pos: "0 < i \<Longrightarrow> showInt i = showNat (nat i)"
  by (simp add: showInt_def)

lemma digitChar_upt: "map digitChar [0..<10] = ''0123456789''"
  by code_simp

lemma digitChar_nth: "d < 10 \<Longrightarrow> digitChar d = ''0123456789'' ! d"
proof -
  assume "d < 10"
  then have "digitChar d = map digitChar [0..<10] ! d" by simp
  then show ?thesis by (simp only: digitChar_upt)
qed

lemma showNat_small: "m < 10 \<Longrightarrow> showNat m = [''0123456789'' ! m]"
  by (simp add: showNat.simps [of m] digitChar_nth)

lemma showNat_large:
  "10 \<le> m \<Longrightarrow> showNat m = showNat (m div 10) @ [''0123456789'' ! (m mod 10)]"
  by (simp add: showNat.simps [of m] digitChar_nth)

lemma showNat_decimal_digits: "set (showNat n) \<subseteq> set ''0123456789''"
proof -
  have "digitChar ` {0..<10} = set (map digitChar [0..<10])" by simp
  also have "\<dots> = set ''0123456789''" by (simp only: digitChar_upt)
  finally show ?thesis using showNat_digits [of n] by simp
qed

lemma showNat_5: "showNat 5 = ''5''"
  by (simp add: showNat_small)

subsection \<open>Reading a payload back\<close>

lemma of_char_char_of_small: "n < 256 \<Longrightarrow> (of_char (char_of n) :: nat) = n"
  by simp

lemma hexVal_hexChar: "d < 16 \<Longrightarrow> hexVal (hexChar d) = Some d"
  by (simp add: hexVal_def hexChar_def Let_def)

lemma hexVal_zero: "hexVal (CHR ''0'') = Some 0"
  by (simp add: hexVal_def)

lemma consChar_Some: "consChar c (Some (s, rest)) = Some (c # s, rest)"
  by (simp add: consChar_def)

lemma char_of_div_mod: "char_of (16 * ((of_char c :: nat) div 16) + of_char c mod 16) = c"
  by simp

lemma readChars_escaped:
  "unescape d = Some c \<Longrightarrow> d \<noteq> CHR ''u'' \<Longrightarrow>
   readChars (CHR 0x5C # d # zs) = consChar c (readChars zs)"
  by simp

lemma readChars_hex:
  assumes "(of_char c :: nat) < 32"
  shows "readChars ([CHR 0x5C, CHR ''u'', CHR ''0'', CHR ''0'',
            hexChar (of_char c div 16), hexChar (of_char c mod 16)] @ zs)
         = consChar c (readChars zs)"
proof -
  have "(of_char c :: nat) div 16 < 16" using assms by simp
  then have hi: "hexVal (hexChar (of_char c div 16)) = Some (of_char c div 16)"
    by (rule hexVal_hexChar)
  have lo: "hexVal (hexChar (of_char c mod 16)) = Some (of_char c mod 16)"
    by (rule hexVal_hexChar) simp
  show ?thesis by (simp add: hi lo char_of_div_mod)
qed

lemma readChars_plain:
  "c \<noteq> CHR 0x22 \<Longrightarrow> c \<noteq> CHR 0x5C \<Longrightarrow> \<not> (of_char c :: nat) < 32 \<Longrightarrow>
   readChars (c # zs) = consChar c (readChars zs)"
  by simp

lemmas [simp del] = readChars.simps(2)

lemma readChars_jsonEscape: "readChars (jsonEscape c @ zs) = consChar c (readChars zs)"
proof -
  consider "c = CHR 0x22" | "c = CHR 0x5C" | "c = CHR 0x08" | "c = CHR 0x0C" | "c = CHR 0x0A"
    | "c = CHR 0x0D" | "c = CHR 0x09"
    | "c \<notin> {CHR 0x22, CHR 0x5C, CHR 0x08, CHR 0x0C, CHR 0x0A, CHR 0x0D, CHR 0x09}" "(of_char c :: nat) < 32"
    | "c \<notin> {CHR 0x22, CHR 0x5C, CHR 0x08, CHR 0x0C, CHR 0x0A, CHR 0x0D, CHR 0x09}" "\<not> (of_char c :: nat) < 32"
    by blast
  then show ?thesis
  proof cases
    case 1
    then show ?thesis by (simp add: jsonEscape_def readChars_escaped unescape_def)
  next
    case 2
    then show ?thesis by (simp add: jsonEscape_def readChars_escaped unescape_def)
  next
    case 3
    then show ?thesis by (simp add: jsonEscape_def readChars_escaped unescape_def)
  next
    case 4
    then show ?thesis by (simp add: jsonEscape_def readChars_escaped unescape_def)
  next
    case 5
    then show ?thesis by (simp add: jsonEscape_def readChars_escaped unescape_def)
  next
    case 6
    then show ?thesis by (simp add: jsonEscape_def readChars_escaped unescape_def)
  next
    case 7
    then show ?thesis by (simp add: jsonEscape_def readChars_escaped unescape_def)
  next
    case 8
    then have "jsonEscape c = [CHR 0x5C, CHR ''u'', CHR ''0'', CHR ''0'',
            hexChar (of_char c div 16), hexChar (of_char c mod 16)]"
      by (simp add: jsonEscape_def)
    with readChars_hex [OF 8(2), of zs] show ?thesis by simp
  next
    case 9
    then have "jsonEscape c = [c]" by (simp add: jsonEscape_def)
    with 9 show ?thesis by (simp add: readChars_plain)
  qed
qed

lemma readChars_escaped_string:
  "readChars (concat (map jsonEscape s) @ CHR 0x22 # rest) = Some (s, rest)"
proof (induction s)
  case Nil
  show ?case by (simp add: readChars.simps(2))
next
  case (Cons c s)
  have "readChars (jsonEscape c @ (concat (map jsonEscape s) @ CHR 0x22 # rest))
      = consChar c (readChars (concat (map jsonEscape s) @ CHR 0x22 # rest))"
    by (rule readChars_jsonEscape)
  with Cons show ?case by (simp add: consChar_Some)
qed

lemma readString_jsonQuote: "readString (jsonQuote s @ rest) = Some (s, rest)"
  using readChars_escaped_string [of s rest] by (simp add: readString_def jsonQuote_def)

lemma jsonMembers_length: "length kvs \<le> length (jsonMembers kvs)"
  by (induction kvs rule: jsonMembers.induct) (simp_all add: jsonQuote_def)

lemma jsonMembers_head: "kvs \<noteq> [] \<Longrightarrow> \<exists>zs. jsonMembers kvs = CHR 0x22 # zs"
  by (induction kvs rule: jsonMembers.induct) (simp_all add: jsonQuote_def)

lemma readMembers_one:
  "readMembers (Suc n) (jsonQuote k @ '':'' @ jsonQuote v @ ''}'') = Some [(k, v)]"
proof -
  have a: "readString (jsonQuote k @ '':'' @ jsonQuote v @ ''}'') = Some (k, '':'' @ jsonQuote v @ ''}'')"
    by (rule readString_jsonQuote)
  have b: "readString (jsonQuote v @ ''}'') = Some (v, ''}'')"
    by (rule readString_jsonQuote)
  show ?thesis using a b by simp
qed

lemma readMembers_more:
  "readMembers (Suc n) (jsonQuote k @ '':'' @ jsonQuote v @ '','' @ rest)
     = map_option ((#) (k, v)) (readMembers n rest)"
proof -
  have a: "readString (jsonQuote k @ '':'' @ jsonQuote v @ '','' @ rest)
      = Some (k, '':'' @ jsonQuote v @ '','' @ rest)"
    by (rule readString_jsonQuote)
  have b: "readString (jsonQuote v @ '','' @ rest) = Some (v, '','' @ rest)"
    by (rule readString_jsonQuote)
  show ?thesis using a b by simp
qed

lemmas [simp del] = readMembers.simps(2)

lemma readMembers_jsonMembers:
  "kvs \<noteq> [] \<Longrightarrow> length kvs \<le> n \<Longrightarrow> readMembers n (jsonMembers kvs @ ''}'') = Some kvs"
proof (induction kvs arbitrary: n rule: jsonMembers.induct)
  case 1
  then show ?case by simp
next
  case (2 k v)
  then obtain m where "n = Suc m" by (cases n) auto
  then show ?case using readMembers_one [of m k v] by simp
next
  case (3 k v kv kvs)
  then obtain m where m: "n = Suc m" "length (kv # kvs) \<le> m" by (cases n) auto
  from "3.IH" [OF _ m(2)] have "readMembers m (jsonMembers (kv # kvs) @ ''}'') = Some (kv # kvs)"
    by simp
  then show ?case
    using readMembers_more [of m k v "jsonMembers (kv # kvs) @ ''}''"] m(1) by simp
qed

lemma readObject_JSON_stringify: "readObject (JSON_stringify kvs) = Some kvs"
proof (cases "kvs = []")
  case True
  then show ?thesis by (simp add: readObject_def JSON_stringify_def)
next
  case False
  then obtain zs where zs: "jsonMembers kvs = CHR 0x22 # zs"
    using jsonMembers_head by blast
  have "length kvs \<le> length (jsonMembers kvs @ ''}'')"
    using jsonMembers_length [of kvs] by simp
  with False have "readMembers (length (jsonMembers kvs @ ''}'')) (jsonMembers kvs @ ''}'') = Some kvs"
    by (rule readMembers_jsonMembers)
  then show ?thesis using zs by (simp add: readObject_def JSON_stringify_def)
qed

lemma readObject_payload:
  "readObject (payload t) =
     Some [(''title'', notificationTitle), (''body'', body t), (''icon'', ''/icon.png'')]"
  by (simp add: payload_def readObject_JSON_stringify)

subsection \<open>The claims\<close>

text \<open>
  Claim C1. Under a clock inside the range of \<^verbatim>\<open>Date\<close>, a candidate is among the tasks
  to notify exactly when the string made of its date, the letter \<^verbatim>\<open>T\<close>, its start time
  and \<^verbatim>\<open>:00\<close> parses to an instant \<open>start\<close>, and \<open>start\<close> minus the offset in minutes,
  floored to a multiple of 60000 milliseconds, equals the clock read once for the tick,
  floored in the same way; the offset is the stored one, 5 when there is none. For an offset
  of 5 and a start time \<^verbatim>\<open>10:00\<close> parsed to \<open>start10\<close>, the task is included exactly when the
  clock's bucket is the one five minutes before the bucket of \<open>start10\<close> (09:55), and it is
  left out in the buckets six minutes (09:54) and four minutes (09:56) before it.
\<close>

theorem tasksToNotify_minute_bucket:
  assumes "- 8640000000000000 \<le> now e" and "now e < 8640000000000000"
  shows "(t \<in> set (tasksToNotify e ts) \<longleftrightarrow>
            t \<in> set (findCandidates ts) \<and>
            (\<exists>start.
               parseDate e
                 ((case date t of None \<Rightarrow> ''undefined'' | Some d \<Rightarrow> d) @ ''T''
                    @ (case startTime t of None \<Rightarrow> ''undefined'' | Some s \<Rightarrow> s) @ '':00'')
                 = Some start \<and>
               now e div 60000 * 60000 =
                 (start - (case reminderOffset t of None \<Rightarrow> 5 | Some v \<Rightarrow> v) * 60000)
                   div 60000 * 60000))
       \<and> (t \<in> set (findCandidates ts) \<and> date t = Some d \<and> startTime t = Some st \<and>
            reminderOffset t = Some n \<and> parseDate e (d @ ''T'' @ st @ '':00'') = Some start \<longrightarrow>
              (t \<in> set (tasksToNotify e ts) \<longleftrightarrow>
                 now e div 60000 * 60000 = (start - n * 60000) div 60000 * 60000))
       \<and> (t \<in> set (findCandidates ts) \<and> reminderOffset t = Some 5 \<and> startTime t = Some ''10:00'' \<and>
            parseDate e ((case date t of None \<Rightarrow> ''undefined'' | Some d \<Rightarrow> d) @ ''T10:00:00'')
              = Some start10 \<longrightarrow>
              (t \<in> set (tasksToNotify e ts) \<longleftrightarrow>
                 now e div 60000 * 60000 = start10 div 60000 * 60000 - 5 * 60000)
            \<and> (now e div 60000 * 60000 = start10 div 60000 * 60000 - 6 * 60000 \<longrightarrow>
                 t \<notin> set (tasksToNotify e ts))
            \<and> (now e div 60000 * 60000 = start10 div 60000 * 60000 - 4 * 60000 \<longrightarrow>
                 t \<notin> set (tasksToNotify e ts)))"
proof (intro conjI impI)
  have range: "- maxTime \<le> now e" "now e < maxTime"
    using assms by (simp_all add: maxTime_def)
  have str: "taskTimeStr t =
      (case date t of None \<Rightarrow> ''undefined'' | Some d \<Rightarrow> d) @ ''T''
        @ (case startTime t of None \<Rightarrow> ''undefined'' | Some s \<Rightarrow> s) @ '':00''"
    by (simp add: taskTimeStr_def js_str_def)
  have due: "isDue e t \<longleftrightarrow>
      (\<exists>start.
         parseDate e
           ((case date t of None \<Rightarrow> ''undefined'' | Some d \<Rightarrow> d) @ ''T''
              @ (case startTime t of None \<Rightarrow> ''undefined'' | Some s \<Rightarrow> s) @ '':00'')
           = Some start \<and>
         now e div 60000 * 60000 =
           (start - (case reminderOffset t of None \<Rightarrow> 5 | Some v \<Rightarrow> v) * 60000)
             div 60000 * 60000)"
    using isDue_buckets [OF range, of t] unfolding str currentTimestamp_def floorMinute_def .
  show "t \<in> set (tasksToNotify e ts) \<longleftrightarrow>
            t \<in> set (findCandidates ts) \<and>
            (\<exists>start.
               parseDate e
                 ((case date t of None \<Rightarrow> ''undefined'' | Some d \<Rightarrow> d) @ ''T''
                    @ (case startTime t of None \<Rightarrow> ''undefined'' | Some s \<Rightarrow> s) @ '':00'')
                 = Some start \<and>
               now e div 60000 * 60000 =
                 (start - (case reminderOffset t of None \<Rightarrow> 5 | Some v \<Rightarrow> v) * 60000)
                   div 60000 * 60000)"
    using due by (auto simp: tasksToNotify_def)
  show "t \<in> set (tasksToNotify e ts) \<longleftrightarrow>
          now e div 60000 * 60000 = (start - n * 60000) div 60000 * 60000"
    if h: "t \<in> set (findCandidates ts) \<and> date t = Some d \<and> startTime t = Some st \<and>
            reminderOffset t = Some n \<and> parseDate e (d @ ''T'' @ st @ '':00'') = Some start"
  proof -
    from h due have "isDue e t \<longleftrightarrow>
        now e div 60000 * 60000 = (start - n * 60000) div 60000 * 60000"
      by simp
    with h show ?thesis by (simp add: tasksToNotify_def)
  qed
next
  assume h: "t \<in> set (findCandidates ts) \<and> reminderOffset t = Some 5 \<and> startTime t = Some ''10:00'' \<and>
            parseDate e ((case date t of None \<Rightarrow> ''undefined'' | Some d \<Rightarrow> d) @ ''T10:00:00'')
              = Some start10"
  have range: "- maxTime \<le> now e" "now e < maxTime"
    using assms by (simp_all add: maxTime_def)
  have p: "parseDate e (taskTimeStr t) = Some start10"
    using h by (simp add: taskTimeStr_def js_str_def)
  have "isDue e t \<longleftrightarrow> currentTimestamp e = floorMinute start10 - 5 * 60000"
    using isDue_buckets [OF range, of t] h p floorMinute_shift [of start10 5] by simp
  then have due: "isDue e t \<longleftrightarrow>
      now e div 60000 * 60000 = start10 div 60000 * 60000 - 5 * 60000"
    unfolding currentTimestamp_def floorMinute_def .
  from h due show "t \<in> set (tasksToNotify e ts) \<longleftrightarrow>
      now e div 60000 * 60000 = start10 div 60000 * 60000 - 5 * 60000"
    by (simp add: tasksToNotify_def)
  from h due show "t \<notin> set (tasksToNotify e ts)"
    if "now e div 60000 * 60000 = start10 div 60000 * 60000 - 6 * 60000"
    using that by (simp add: tasksToNotify_def)
  from h due show "t \<notin> set (tasksToNotify e ts)"
    if "now e div 60000 * 60000 = start10 div 60000 * 60000 - 4 * 60000"
    using that by (simp add: tasksToNotify_def)
qed

text \<open>
  The sample task starts at 10:00 and the late task at 11:00, both with an offset of 5.
  The first is selected from 09:55:00.000 to 09:55:59.999 and not one millisecond
  earlier or later; the second is selected at 10:55:30.123, and at no time the other one.
\<close>

theorem tasksToNotify_minute_bucket_witness:
  "- 8640000000000000 \<le> now (sampleEnv 1704102900000)
   \<and> now (sampleEnv 1704102900000) < 8640000000000000
   \<and> findCandidates [sampleTask, lateTask] = [sampleTask, lateTask]
   \<and> date sampleTask = Some ''2024-01-01'' \<and> startTime sampleTask = Some ''10:00''
   \<and> reminderOffset sampleTask = Some 5
   \<and> date lateTask = Some ''2024-01-01'' \<and> startTime lateTask = Some ''11:00''
   \<and> reminderOffset lateTask = Some 5
   \<and> tasksToNotify (sampleEnv 1704102899999) [sampleTask, lateTask] = []
   \<and> tasksToNotify (sampleEnv 1704102900000) [sampleTask, lateTask] = [sampleTask]
   \<and> tasksToNotify (sampleEnv 1704102930123) [sampleTask, lateTask] = [sampleTask]
   \<and> tasksToNotify (sampleEnv 1704102959999) [sampleTask, lateTask] = [sampleTask]
   \<and> tasksToNotify (sampleEnv 1704102960000) [sampleTask, lateTask] = []
   \<and> tasksToNotify (sampleEnv 1704106499999) [sampleTask, lateTask] = []
   \<and> tasksToNotify (sampleEnv 1704106530123) [sampleTask, lateTask] = [lateTask]
   \<and> tasksToNotify (sampleEnv 1704106560000) [sampleTask, lateTask] = []"
proof -
  let ?ts = "[sampleTask, lateTask]"
  have c: "findCandidates ?ts = ?ts"
    by (simp add: findCandidates_def sampleTask_def lateTask_def)
  have f: "date sampleTask = Some ''2024-01-01''" "startTime sampleTask = Some ''10:00''"
    "reminderOffset sampleTask = Some 5"
    "date lateTask = Some ''2024-01-01''" "startTime lateTask = Some ''11:00''"
    "reminderOffset lateTask = Some 5"
    by (simp_all add: sampleTask_def lateTask_def)
  have p: "parseDate (sampleEnv k) (''2024-01-01'' @ ''T'' @ ''10:00'' @ '':00'') = Some 1704103200000"
    "parseDate (sampleEnv k) (''2024-01-01'' @ ''T'' @ ''11:00'' @ '':00'') = Some 1704106800000"
    for k
    by (simp_all add: sampleEnv_def sampleParse_def)
  have r: "- 8640000000000000 \<le> now (sampleEnv k) \<and> now (sampleEnv k) < 8640000000000000"
    if "k \<in> {1704102899999, 1704102900000, 1704102930123, 1704102959999, 1704102960000,
               1704106499999, 1704106530123, 1704106560000}" for k
    using that by (auto simp: sampleEnv_def)
  have a: "sampleTask \<in> set (tasksToNotify (sampleEnv k) ?ts) \<longleftrightarrow>
      k div 60000 * 60000 = (1704103200000 - 5 * 60000) div 60000 * 60000"
    if "- 8640000000000000 \<le> now (sampleEnv k) \<and> now (sampleEnv k) < 8640000000000000" for k
  proof -
    from that have r1: "- 8640000000000000 \<le> now (sampleEnv k)"
      and r2: "now (sampleEnv k) < 8640000000000000"
      by simp_all
    from tasksToNotify_minute_bucket [OF r1 r2, of sampleTask ?ts "''2024-01-01''" "''10:00''" 5
        1704103200000] c f p(1) [of k]
    show ?thesis by (simp add: sampleEnv_def)
  qed
  have b: "lateTask \<in> set (tasksToNotify (sampleEnv k) ?ts) \<longleftrightarrow>
      k div 60000 * 60000 = (1704106800000 - 5 * 60000) div 60000 * 60000"
    if "- 8640000000000000 \<le> now (sampleEnv k) \<and> now (sampleEnv k) < 8640000000000000" for k
  proof -
    from that have r1: "- 8640000000000000 \<le> now (sampleEnv k)"
      and r2: "now (sampleEnv k) < 8640000000000000"
      by simp_all
    from tasksToNotify_minute_bucket [OF r1 r2, of lateTask ?ts "''2024-01-01''" "''11:00''" 5
        1704106800000] c f p(2) [of k]
    show ?thesis by (simp add: sampleEnv_def)
  qed
  have sel: "tasksToNotify (sampleEnv k) ?ts =
      (if sampleTask \<in> set (tasksToNotify (sampleEnv k) ?ts) then [sampleTask] else [])
      @ (if lateTask \<in> set (tasksToNotify (sampleEnv k) ?ts) then [lateTask] else [])" for k
    unfolding tasksToNotify_def c by simp
  have 1: "tasksToNotify (sampleEnv 1704102899999) ?ts = []"
    using a [OF r, of 1704102899999] b [OF r, of 1704102899999] sel [of 1704102899999] by simp
  have 2: "tasksToNotify (sampleEnv 1704102900000) ?ts = [sampleTask]"
    using a [OF r, of 1704102900000] b [OF r, of 1704102900000] sel [of 1704102900000] by simp
  have 3: "tasksToNotify (sampleEnv 1704102930123) ?ts = [sampleTask]"
    using a [OF r, of 1704102930123] b [OF r, of 1704102930123] sel [of 1704102930123] by simp
  have 4: "tasksToNotify (sampleEnv 1704102959999) ?ts = [sampleTask]"
    using a [OF r, of 1704102959999] b [OF r, of 1704102959999] sel [of 1704102959999] by simp
  have 5: "tasksToNotify (sampleEnv 1704102960000) ?ts = []"
    using a [OF r, of 1704102960000] b [OF r, of 1704102960000] sel [of 1704102960000] by simp
  have 6: "tasksToNotify (sampleEnv 1704106499999) ?ts = []"
    using a [OF r, of 1704106499999] b [OF r, of 1704106499999] sel [of 1704106499999] by simp
  have 7: "tasksToNotify (sampleEnv 1704106530123) ?ts = [lateTask]"
    using a [OF r, of 1704106530123] b [OF r, of 1704106530123] sel [of 1704106530123] by simp
  have 8: "tasksToNotify (sampleEnv 1704106560000) ?ts = []"
    using a [OF r, of 1704106560000] b [OF r, of 1704106560000] sel [of 1704106560000] by simp
  from r [of 1704102900000] c f 1 2 3 4 5 6 7 8 show ?thesis by simp
qed

text \<open>
  Claim C2. In a tick whose store calls all go through and that has a subscriber, every
  due task has its push started for every subscriber, is saved, and is left with
  \<open>notified\<close> set in the store, whatever the pushes answer: the theorem constrains
  \<open>pushOutcome\<close> in no way. From then on no tick, under any clock and environment,
  selects that document again.
\<close>

theorem due_task_marked_notified:
  assumes "storeResponds e" and "subscriptions db \<noteq> []"
    and "t \<in> set (tasksToNotify e (tasks db))"
  shows "(\<forall>sub \<in> set (subscriptions db).
            SendNotification (endpoint sub) (payload t) \<in> set (snd (tick e db)))
       \<and> TaskSave (doc_id t) \<in> set (snd (tick e db))
       \<and> (\<exists>d \<in> set (tasks (fst (tick e db))). doc_id d = doc_id t)
       \<and> (\<forall>d \<in> set (tasks (fst (tick e db))). doc_id d = doc_id t \<longrightarrow> notified d)
       \<and> (\<forall>es e'. \<forall>d \<in> set (tasksToNotify e' (tasks (ticks es (fst (tick e db))))).
             doc_id d \<noteq> doc_id t)"
proof (intro conjI)
  show "\<forall>sub \<in> set (subscriptions db).
      SendNotification (endpoint sub) (payload t) \<in> set (snd (tick e db))"
    using tick_sends(1) [OF assms(1,3)] by blast
  obtain sub where "sub \<in> set (subscriptions db)" using assms(2) by (cases "subscriptions db") auto
  then show "TaskSave (doc_id t) \<in> set (snd (tick e db))"
    using tick_sends(2) [OF assms(1,3)] by blast
  have ts: "tasks (fst (tick e db)) = markSet (doc_id ` set (tasksToNotify e (tasks db))) (tasks db)"
    using assms(1,2) by (rule tick_responding_tasks)
  have "t \<in> set (tasks db)" using assms(3) by (simp add: tasksToNotify_unnotified)
  then have "doc_id t \<in> set (map doc_id (markSet (doc_id ` set (tasksToNotify e (tasks db))) (tasks db)))"
    by (simp add: markSet_ids)
  with ts show "\<exists>d \<in> set (tasks (fst (tick e db))). doc_id d = doc_id t" by auto
  show marked: "\<forall>d \<in> set (tasks (fst (tick e db))). doc_id d = doc_id t \<longrightarrow> notified d"
    using ts assms(3) markSet_notified by fastforce
  show "\<forall>es e'. \<forall>d \<in> set (tasksToNotify e' (tasks (ticks es (fst (tick e db))))).
      doc_id d \<noteq> doc_id t"
    using ticks_keep_notified [OF marked] tasksToNotify_unnotified by blast
qed

text \<open>
  During a total outage of the push service the sample task, due at 09:55:30.123, is
  pushed to the one subscriber, the failure is logged, and the task is saved as notified;
  the tick that follows finds nothing to notify.
\<close>

theorem due_task_marked_notified_witness:
  "storeResponds (outageEnv 1704102930123) \<and> subscriptions sampleStore \<noteq> []
   \<and> sampleTask \<in> set (tasksToNotify (outageEnv 1704102930123) (tasks sampleStore))
   \<and> pushOutcome (outageEnv 1704102930123) (doc_id sampleTask) sampleSub (payload sampleTask) \<noteq> Delivered
   \<and> SendNotification (endpoint sampleSub) (payload sampleTask)
        \<in> set (snd (tick (outageEnv 1704102930123) sampleStore))
   \<and> TaskSave 1 \<in> set (snd (tick (outageEnv 1704102930123) sampleStore))
   \<and> tasks (fst (tick (outageEnv 1704102930123) sampleStore)) = [sampleTask\<lparr>notified := True\<rparr>]
   \<and> tasksToNotify (outageEnv 1704102930123)
        (tasks (ticks [outageEnv 1704102930123] (fst (tick (outageEnv 1704102930123) sampleStore)))) = []"
proof -
  let ?e = "outageEnv 1704102930123"
  have h1: "storeResponds ?e"
    by (simp add: storeResponds_def outageEnv_def sampleEnv_def)
  have h2: "subscriptions sampleStore \<noteq> []"
    by (simp add: sampleStore_def)
  have h3: "sampleTask \<in> set (tasksToNotify ?e (tasks sampleStore))"
    by (simp add: run_simps outageEnv_def sampleEnv_def sampleParse_def sampleStore_def sampleTask_def)
  have ev: "tick ?e sampleStore =
      (\<lparr>subscriptions = [sampleSub], tasks = [sampleTask\<lparr>notified := True\<rparr>]\<rparr>,
       [SubscriptionFind, TaskFind, LogFound 1,
        SendNotification (endpoint sampleSub) (payload sampleTask),
        LogPushError ''connect ETIMEDOUT'', TaskSave 1])"
    by (simp add: run_simps outageEnv_def sampleEnv_def sampleParse_def sampleStore_def sampleTask_def)
  have nd: "tasksToNotify e [sampleTask\<lparr>notified := True\<rparr>] = []" for e
    by (simp add: tasksToNotify_def findCandidates_def)
  from due_task_marked_notified [OF h1 h2 h3] h1 h2 h3 ev nd show ?thesis
    by (simp add: outageEnv_def sampleEnv_def tick_unfold)
qed

text \<open>
  Claim C10. With no subscription in the store the tick ends right after loading the
  subscriptions: the store is left as it was, the tasks are not loaded, nothing is pushed
  or saved, and the tasks that a tick would select are the same afterwards as before.
\<close>

theorem no_subscriber_tick_changes_nothing:
  assumes "subscriptions db = []"
  shows "fst (tick e db) = db
       \<and> TaskFind \<notin> set (snd (tick e db))
       \<and> (\<forall>i. TaskSave i \<notin> set (snd (tick e db)))
       \<and> (\<forall>ep p. SendNotification ep p \<notin> set (snd (tick e db)))
       \<and> (\<forall>e'. tasksToNotify e' (tasks (fst (tick e db))) = tasksToNotify e' (tasks db))"
  using assms by (simp add: tick_unfold)

theorem no_subscriber_tick_changes_nothing_witness:
  "subscriptions noSubscriberStore = []
   \<and> sampleTask \<in> set (tasksToNotify (sampleEnv 1704102930123) (tasks noSubscriberStore))
   \<and> tick (sampleEnv 1704102930123) noSubscriberStore = (noSubscriberStore, [SubscriptionFind])
   \<and> sampleTask \<in> set (tasksToNotify (sampleEnv 1704102930123)
        (tasks (fst (tick (sampleEnv 1704102930123) noSubscriberStore))))"
proof -
  have h: "subscriptions noSubscriberStore = []" by (simp add: noSubscriberStore_def)
  have d: "sampleTask \<in> set (tasksToNotify (sampleEnv 1704102930123) (tasks noSubscriberStore))"
    by (simp add: run_simps sampleEnv_def sampleParse_def noSubscriberStore_def sampleTask_def)
  have t: "tick (sampleEnv 1704102930123) noSubscriberStore = (noSubscriberStore, [SubscriptionFind])"
    by (simp add: tick_unfold sampleEnv_def noSubscriberStore_def)
  from no_subscriber_tick_changes_nothing [OF h, of "sampleEnv 1704102930123"] h d t
  show ?thesis by simp
qed

text \<open>
  Claim C9, as stated, fails for a throw after the first commit. In \<open>twoTaskStore\<close> under
  \<open>brokenSaveEnv\<close> the save of the second task throws and the tick ends in its
  \<^verbatim>\<open>catch\<close>, yet the subscription is deleted and the first task is saved as notified.
\<close>

theorem tick_throw_after_commit:
  "saveThrows (brokenSaveEnv 1704102930123) 2
   \<and> LogLoopError \<in> set (snd (tick (brokenSaveEnv 1704102930123) twoTaskStore))
   \<and> subscriptions (fst (tick (brokenSaveEnv 1704102930123) twoTaskStore)) = []
   \<and> subscriptions twoTaskStore = [sampleSub]
   \<and> map notified (tasks (fst (tick (brokenSaveEnv 1704102930123) twoTaskStore))) = [True, False]
   \<and> map notified (tasks twoTaskStore) = [False, False]"
  by (simp add: run_simps brokenSaveEnv_def sampleEnv_def sampleParse_def twoTaskStore_def
      sampleTask_def sampleSub_def)

text \<open>
  Claim C9, amended. When the store is unavailable at the start of the tick (the
  connection is not ready, or loading the subscriptions or the tasks throws), the tick
  leaves the store as it was, deletes and saves nothing, and the ticks after it run on
  the unchanged store. Every throw of a tick (of a load, a deletion or a save) is caught
  and logged, and only a throw is. A throw after a commit keeps the commit: all a tick
  ever does to the store is delete subscriptions and set \<open>notified\<close> on tasks it found
  due.
\<close>

theorem tick_store_unavailable:
  "(readyState e \<noteq> 1 \<or> findSubscriptionsThrows e \<or> findTasksThrows e \<longrightarrow>
       fst (tick e db) = db
       \<and> (\<forall>ep. SubscriptionDeleteOne ep \<notin> set (snd (tick e db)))
       \<and> (\<forall>i. TaskSave i \<notin> set (snd (tick e db)))
       \<and> (\<forall>es. ticks (e # es) db = ticks es db))
   \<and> (LogLoopError \<in> set (snd (tick e db)) \<longleftrightarrow>
        readyState e = 1 \<and>
        (findSubscriptionsThrows e \<or>
         (subscriptions db \<noteq> [] \<and>
           (findTasksThrows e \<or>
            (\<exists>t \<in> set (tasksToNotify e (tasks db)). taskThrows e (subscriptions db) t)))))
   \<and> set (subscriptions (fst (tick e db))) \<subseteq> set (subscriptions db)
   \<and> (\<exists>S. S \<subseteq> doc_id ` set (tasksToNotify e (tasks db)) \<and>
            tasks (fst (tick e db)) = markSet S (tasks db))"
proof (intro conjI impI)
  assume u: "readyState e \<noteq> 1 \<or> findSubscriptionsThrows e \<or> findTasksThrows e"
  then show idle: "fst (tick e db) = db" by (intro tick_idle) blast
  from u show "\<forall>ep. SubscriptionDeleteOne ep \<notin> set (snd (tick e db))"
    by (auto simp: tick_unfold)
  from u show "\<forall>i. TaskSave i \<notin> set (snd (tick e db))"
    by (auto simp: tick_unfold)
  from idle show "\<forall>es. ticks (e # es) db = ticks es db" by simp
next
  show "LogLoopError \<in> set (snd (tick e db)) \<longleftrightarrow>
        readyState e = 1 \<and>
        (findSubscriptionsThrows e \<or>
         (subscriptions db \<noteq> [] \<and>
           (findTasksThrows e \<or>
            (\<exists>t \<in> set (tasksToNotify e (tasks db)). taskThrows e (subscriptions db) t))))"
    by (rule tick_loop_error)
  show "set (subscriptions (fst (tick e db))) \<subseteq> set (subscriptions db)"
    by (rule tick_subscriptions_subset)
  show "\<exists>S. S \<subseteq> doc_id ` set (tasksToNotify e (tasks db)) \<and>
            tasks (fst (tick e db)) = markSet S (tasks db)"
    by (rule tick_tasks)
qed

text \<open>
  With the connection down the tick does nothing at all; with a task load that throws
  it logs the error and leaves the sample store alone, and the tick that follows runs as
  if the failed one had not been.
\<close>

theorem tick_store_unavailable_witness:
  "readyState ((sampleEnv 1704102930123)\<lparr>readyState := 0\<rparr>) \<noteq> 1
   \<and> tick ((sampleEnv 1704102930123)\<lparr>readyState := 0\<rparr>) sampleStore = (sampleStore, [])
   \<and> findTasksThrows ((sampleEnv 1704102930123)\<lparr>findTasksThrows := True\<rparr>)
   \<and> tick ((sampleEnv 1704102930123)\<lparr>findTasksThrows := True\<rparr>) sampleStore
        = (sampleStore, [SubscriptionFind, TaskFind, LogLoopError])
   \<and> ticks [(sampleEnv 1704102930123)\<lparr>findTasksThrows := True\<rparr>, sampleEnv 1704102930123] sampleStore
        = ticks [sampleEnv 1704102930123] sampleStore
   \<and> LogLoopError \<in> set (snd (tick ((sampleEnv 1704102930123)\<lparr>findTasksThrows := True\<rparr>) sampleStore))"
proof -
  let ?off = "(sampleEnv 1704102930123)\<lparr>readyState := 0\<rparr>"
  let ?bad = "(sampleEnv 1704102930123)\<lparr>findTasksThrows := True\<rparr>"
  have a: "readyState ?off \<noteq> 1" by (simp add: sampleEnv_def)
  have b: "findTasksThrows ?bad" by simp
  have c: "snd (tick ?off sampleStore) = []"
    by (simp add: tick_unfold sampleEnv_def)
  have d: "snd (tick ?bad sampleStore) = [SubscriptionFind, TaskFind, LogLoopError]"
    by (simp add: tick_unfold sampleEnv_def sampleStore_def)
  from tick_store_unavailable [of ?off sampleStore] a have "fst (tick ?off sampleStore) = sampleStore"
    by blast
  moreover from tick_store_unavailable [of ?bad sampleStore] b
  have "fst (tick ?bad sampleStore) = sampleStore"
    "\<forall>es. ticks (?bad # es) sampleStore = ticks es sampleStore"
    by blast+
  ultimately show ?thesis using a b c d by (simp add: prod_eq_iff)
qed

text \<open>
  Claim C3. The query returns exactly the stored tasks with \<open>completed\<close> false,
  \<open>notified\<close> false and an offset other than \<open>-1\<close>, and the matcher filters nothing
  but that list. So a task with offset \<open>-1\<close> is never selected, whatever its date, its
  time and the clock, and neither is a completed task; in a store whose documents have
  distinct ids, a tick leaves every task outside the query as it is and does not save it.
\<close>

theorem candidate_selection:
  "(t \<in> set (findCandidates ts) \<longleftrightarrow>
      t \<in> set ts \<and> completed t = Some False \<and> notified t = False \<and> reminderOffset t \<noteq> Some (- 1))
   \<and> tasksToNotify e ts = filter (isDue e) (findCandidates ts)
   \<and> (reminderOffset t = Some (- 1) \<longrightarrow> t \<notin> set (tasksToNotify e ts))
   \<and> (completed t = Some True \<longrightarrow> t \<notin> set (tasksToNotify e ts))
   \<and> (distinct (map doc_id (tasks db)) \<and> t \<in> set (tasks db) \<and> t \<notin> set (findCandidates (tasks db)) \<longrightarrow>
        t \<in> set (tasks (fst (tick e db))) \<and> TaskSave (doc_id t) \<notin> set (snd (tick e db)))"
proof (intro conjI impI)
  show "t \<in> set (findCandidates ts) \<longleftrightarrow>
      t \<in> set ts \<and> completed t = Some False \<and> notified t = False \<and> reminderOffset t \<noteq> Some (- 1)"
    by (simp add: findCandidates_def)
  show "tasksToNotify e ts = filter (isDue e) (findCandidates ts)"
    by (simp add: tasksToNotify_def)
  show "t \<notin> set (tasksToNotify e ts)" if "reminderOffset t = Some (- 1)"
    using that by (simp add: tasksToNotify_def findCandidates_def)
  show "t \<notin> set (tasksToNotify e ts)" if "completed t = Some True"
    using that by (simp add: tasksToNotify_def findCandidates_def)
next
  assume h: "distinct (map doc_id (tasks db)) \<and> t \<in> set (tasks db) \<and> t \<notin> set (findCandidates (tasks db))"
  then have n: "t \<notin> set (tasksToNotify e (tasks db))"
    using tasksToNotify_subset by blast
  from h n show "t \<in> set (tasks (fst (tick e db)))"
    by (intro tick_leaves_unselected(1)) simp_all
  from h n show "TaskSave (doc_id t) \<notin> set (snd (tick e db))"
    by (intro tick_leaves_unselected(2)) simp_all
qed

text \<open>
  The disabled task would be due at 10:01 and the completed one at 09:55; neither is
  selected, and the tick at 09:55 notifies the sample task only.
\<close>

theorem candidate_selection_witness:
  "isDue (sampleEnv 1704103260000) disabledTask \<and> reminderOffset disabledTask = Some (- 1)
   \<and> disabledTask \<notin> set (tasksToNotify (sampleEnv 1704103260000) [disabledTask, sampleTask, completedTask])
   \<and> isDue (sampleEnv 1704102930123) completedTask \<and> completed completedTask = Some True
   \<and> tasksToNotify (sampleEnv 1704102930123) [disabledTask, sampleTask, completedTask] = [sampleTask]
   \<and> distinct (map doc_id [disabledTask, sampleTask, completedTask])
   \<and> completedTask \<notin> set (findCandidates [disabledTask, sampleTask, completedTask])
   \<and> completedTask \<in> set (tasks (fst (tick (sampleEnv 1704102930123)
        \<lparr>subscriptions = [sampleSub], tasks = [disabledTask, sampleTask, completedTask]\<rparr>)))
   \<and> TaskSave (doc_id completedTask) \<notin> set (snd (tick (sampleEnv 1704102930123)
        \<lparr>subscriptions = [sampleSub], tasks = [disabledTask, sampleTask, completedTask]\<rparr>))"
proof -
  let ?e = "sampleEnv 1704102930123"
  let ?ts = "[disabledTask, sampleTask, completedTask]"
  let ?db = "\<lparr>subscriptions = [sampleSub], tasks = ?ts\<rparr>"
  have d: "isDue (sampleEnv 1704103260000) disabledTask" "isDue ?e completedTask" "isDue ?e sampleTask"
    by (simp_all add: run_simps sampleEnv_def sampleParse_def disabledTask_def completedTask_def
        sampleTask_def)
  have f: "reminderOffset disabledTask = Some (- 1)" "completed completedTask = Some True"
    "distinct (map doc_id ?ts)"
    by (simp_all add: disabledTask_def completedTask_def sampleTask_def)
  have c: "findCandidates ?ts = [sampleTask]"
    by (simp add: findCandidates_def disabledTask_def completedTask_def sampleTask_def)
  have m: "completedTask \<notin> set (findCandidates ?ts)"
    unfolding c by (simp add: completedTask_def sampleTask_def)
  note sel = candidate_selection [of completedTask ?ts ?e ?db]
  from sel c d(3) have n: "tasksToNotify ?e ?ts = [sampleTask]" by simp
  from sel f(3) m have k: "completedTask \<in> set (tasks (fst (tick ?e ?db)))"
    "TaskSave (doc_id completedTask) \<notin> set (snd (tick ?e ?db))"
    by simp_all
  from candidate_selection [of disabledTask ?ts "sampleEnv 1704103260000" ?db] f(1)
  have "disabledTask \<notin> set (tasksToNotify (sampleEnv 1704103260000) ?ts)" by blast
  with d f n m k show ?thesis by simp
qed

text \<open>
  Claim C7. A task whose date and time do not parse is not due. With such a task in the
  store (its id shared with no other document) the tick selects the same tasks, emits the
  same events, in particular no error, and leaves the same subscriptions and the same
  other tasks as without it, and the task itself is returned untouched at its place.
\<close>

theorem unparseable_task_skipped:
  assumes "parseDate e (taskTimeStr t) = None" and "doc_id t \<notin> doc_id ` set (xs @ ys)"
  shows "\<not> isDue e t
       \<and> tasksToNotify e (xs @ t # ys) = tasksToNotify e (xs @ ys)
       \<and> snd (tick e (db\<lparr>tasks := xs @ t # ys\<rparr>)) = snd (tick e (db\<lparr>tasks := xs @ ys\<rparr>))
       \<and> subscriptions (fst (tick e (db\<lparr>tasks := xs @ t # ys\<rparr>)))
           = subscriptions (fst (tick e (db\<lparr>tasks := xs @ ys\<rparr>)))
       \<and> tasks (fst (tick e (db\<lparr>tasks := xs @ t # ys\<rparr>)))
           = take (length xs) (tasks (fst (tick e (db\<lparr>tasks := xs @ ys\<rparr>)))) @ t
             # drop (length xs) (tasks (fst (tick e (db\<lparr>tasks := xs @ ys\<rparr>))))"
proof -
  have nd: "\<not> isDue e t" using assms(1) by (simp add: isDue_def)
  then have eq: "tasksToNotify e (xs @ t # ys) = tasksToNotify e (xs @ ys)"
    by (rule tasksToNotify_skip)
  let ?S = "if readyState e = 1 \<and> \<not> findSubscriptionsThrows e \<and> \<not> findTasksThrows e
                 \<and> subscriptions db \<noteq> []
            then savedIds e (subscriptions db) (tasksToNotify e (xs @ ys)) else {}"
  have a: "tasks (fst (tick e (db\<lparr>tasks := xs @ t # ys\<rparr>))) = markSet ?S (xs @ t # ys)"
    using tick_tasks_saved [of e "db\<lparr>tasks := xs @ t # ys\<rparr>"] eq by simp
  have b: "tasks (fst (tick e (db\<lparr>tasks := xs @ ys\<rparr>))) = markSet ?S (xs @ ys)"
    using tick_tasks_saved [of e "db\<lparr>tasks := xs @ ys\<rparr>"] by simp
  have "?S \<subseteq> doc_id ` set (tasksToNotify e (xs @ ys))"
    using savedIds_subset [of e "subscriptions db" "tasksToNotify e (xs @ ys)"] by simp
  moreover have "set (tasksToNotify e (xs @ ys)) \<subseteq> set (xs @ ys)"
    using tasksToNotify_subset findCandidates_subset by blast
  ultimately have "doc_id t \<notin> ?S" using assms(2) by blast
  then have "markSet ?S (xs @ t # ys) = markSet ?S xs @ t # markSet ?S ys"
    using markSet_append [of ?S xs "t # ys"] markSet_Cons_other [of t ?S ys] by simp
  moreover have "take (length xs) (markSet ?S (xs @ ys)) = markSet ?S xs"
    "drop (length xs) (markSet ?S (xs @ ys)) = markSet ?S ys"
    by (simp_all add: markSet_append markSet_length)
  ultimately have c: "tasks (fst (tick e (db\<lparr>tasks := xs @ t # ys\<rparr>)))
           = take (length xs) (tasks (fst (tick e (db\<lparr>tasks := xs @ ys\<rparr>)))) @ t
             # drop (length xs) (tasks (fst (tick e (db\<lparr>tasks := xs @ ys\<rparr>))))"
    using a b by simp
  from nd eq c tick_events_tasks_indep [OF eq, of db] tick_subscriptions_tasks_indep [OF eq, of db]
  show ?thesis by simp
qed

text \<open>
  The malformed task stands before the sample task: the tick at 09:55 notifies the sample
  task, logs no error and leaves the malformed task alone.
\<close>

theorem unparseable_task_skipped_witness:
  "parseDate (sampleEnv 1704102930123) (taskTimeStr malformedTask) = None
   \<and> doc_id malformedTask \<notin> doc_id ` set ([] @ [sampleTask])
   \<and> tasksToNotify (sampleEnv 1704102930123) [malformedTask, sampleTask] = [sampleTask]
   \<and> tick (sampleEnv 1704102930123) (sampleStore\<lparr>tasks := [malformedTask, sampleTask]\<rparr>)
      = (sampleStore\<lparr>tasks := [malformedTask, sampleTask\<lparr>notified := True\<rparr>]\<rparr>,
         [SubscriptionFind, TaskFind, LogFound 1,
          SendNotification (endpoint sampleSub) (payload sampleTask), TaskSave 1])"
proof -
  let ?e = "sampleEnv 1704102930123"
  have h1: "parseDate ?e (taskTimeStr malformedTask) = None"
    by (simp add: sampleEnv_def sampleParse_def taskTimeStr_def js_str_def malformedTask_def
        sampleTask_def)
  have h2: "doc_id malformedTask \<notin> doc_id ` set ([] @ [sampleTask])"
    by (simp add: malformedTask_def sampleTask_def)
  have base: "tick ?e (sampleStore\<lparr>tasks := [] @ [sampleTask]\<rparr>)
      = (sampleStore\<lparr>tasks := [sampleTask\<lparr>notified := True\<rparr>]\<rparr>,
         [SubscriptionFind, TaskFind, LogFound 1,
          SendNotification (endpoint sampleSub) (payload sampleTask), TaskSave 1])"
    by (simp add: run_simps sampleEnv_def sampleParse_def sampleStore_def sampleTask_def)
  have due: "tasksToNotify ?e ([] @ [sampleTask]) = [sampleTask]"
    by (simp add: run_simps sampleEnv_def sampleParse_def sampleTask_def)
  note skip = unparseable_task_skipped [OF h1 h2, of sampleStore]
  have sub: "subscriptions (fst (tick ?e (sampleStore\<lparr>tasks := [malformedTask, sampleTask]\<rparr>)))
      = subscriptions sampleStore"
    using skip base by simp
  have tk: "tasks (fst (tick ?e (sampleStore\<lparr>tasks := [malformedTask, sampleTask]\<rparr>)))
      = [malformedTask, sampleTask\<lparr>notified := True\<rparr>]"
    using skip base by simp
  have ev: "snd (tick ?e (sampleStore\<lparr>tasks := [malformedTask, sampleTask]\<rparr>))
      = [SubscriptionFind, TaskFind, LogFound 1,
          SendNotification (endpoint sampleSub) (payload sampleTask), TaskSave 1]"
    using skip base by simp
  have st: "fst (tick ?e (sampleStore\<lparr>tasks := [malformedTask, sampleTask]\<rparr>))
      = sampleStore\<lparr>tasks := [malformedTask, sampleTask\<lparr>notified := True\<rparr>]\<rparr>"
    using sub tk by (simp add: store.equality)
  have "tasksToNotify ?e [malformedTask, sampleTask] = [sampleTask]"
    using skip due by simp
  with h1 h2 st ev show ?thesis by (simp add: prod_eq_iff)
qed

text \<open>
  Claim C8. For a task without \<open>reminderOffset\<close> the trigger is the start minus 5 minutes
  and the wording names 5 minutes: the task is matched, and its payload built, exactly as
  with an offset of 5. For a task with an offset \<open>n\<close> the trigger is the start minus \<open>n\<close>
  minutes and the wording is built from \<open>n\<close> itself: none but the starts-now literal for
  0, else the in-so-many-minutes literals around the decimal numeral of \<open>n\<close>, with a minus
  sign before it when \<open>n\<close> is negative (this holds for every \<open>n\<close>; a task with \<open>-1\<close>
  does not get as far as the matcher). The numeral is the usual one: one digit below ten,
  else the numeral of the tens followed by the digit of the units. The literals are given
  by their UTF-8 bytes: U+73B0 U+5728 U+5F00 U+59CB, and U+5C06 U+5728 before and
  U+5206 U+949F U+540E U+5F00 U+59CB after the number.
\<close>

theorem reminder_offset_default:
  "(reminderOffset t = None \<longrightarrow>
      (isDue e t \<longleftrightarrow>
         (\<exists>start. parseDate e (taskTimeStr t) = Some start \<and>
            Some (currentTimestamp e) = map_option floorMinute (newDate (start - 5 * 60000))))
      \<and> timeDesc t = [CHR 0xE5, CHR 0xB0, CHR 0x86, CHR 0xE5, CHR 0x9C, CHR 0xA8] @ '' 5 '' @ [CHR 0xE5, CHR 0x88, CHR 0x86, CHR 0xE9, CHR 0x92, CHR 0x9F, CHR 0xE5, CHR 0x90, CHR 0x8E, CHR 0xE5, CHR 0xBC, CHR 0x80, CHR 0xE5, CHR 0xA7, CHR 0x8B]
      \<and> isDue e t = isDue e (t\<lparr>reminderOffset := Some 5\<rparr>)
      \<and> payload t = payload (t\<lparr>reminderOffset := Some 5\<rparr>))
   \<and> (reminderOffset t = Some n \<longrightarrow>
      (isDue e t \<longleftrightarrow>
         (\<exists>start. parseDate e (taskTimeStr t) = Some start \<and>
            Some (currentTimestamp e) = map_option floorMinute (newDate (start - n * 60000))))
      \<and> timeDesc t =
          (if n = 0 then [CHR 0xE7, CHR 0x8E, CHR 0xB0, CHR 0xE5, CHR 0x9C, CHR 0xA8, CHR 0xE5, CHR 0xBC, CHR 0x80, CHR 0xE5, CHR 0xA7, CHR 0x8B]
           else [CHR 0xE5, CHR 0xB0, CHR 0x86, CHR 0xE5, CHR 0x9C, CHR 0xA8] @ '' ''
                  @ (if n < 0 then CHR ''-'' # showNat (nat (- n)) else showNat (nat n))
                  @ '' '' @ [CHR 0xE5, CHR 0x88, CHR 0x86, CHR 0xE9, CHR 0x92, CHR 0x9F, CHR 0xE5, CHR 0x90, CHR 0x8E, CHR 0xE5, CHR 0xBC, CHR 0x80, CHR 0xE5, CHR 0xA7, CHR 0x8B]))
   \<and> (m < 10 \<longrightarrow> showNat m = [''0123456789'' ! m])
   \<and> (10 \<le> m \<longrightarrow> showNat m = showNat (m div 10) @ [''0123456789'' ! (m mod 10)])
   \<and> readNat (showNat m) = m"
proof (intro conjI impI)
  assume a: "reminderOffset t = None"
  then show "isDue e t \<longleftrightarrow>
         (\<exists>start. parseDate e (taskTimeStr t) = Some start \<and>
            Some (currentTimestamp e) = map_option floorMinute (newDate (start - 5 * 60000)))"
    by (simp add: isDue_def Let_def split: option.splits)
  from a show "timeDesc t = [CHR 0xE5, CHR 0xB0, CHR 0x86, CHR 0xE5, CHR 0x9C, CHR 0xA8] @ '' 5 '' @ [CHR 0xE5, CHR 0x88, CHR 0x86, CHR 0xE9, CHR 0x92, CHR 0x9F, CHR 0xE5, CHR 0x90, CHR 0x8E, CHR 0xE5, CHR 0xBC, CHR 0x80, CHR 0xE5, CHR 0xA7, CHR 0x8B]"
    by (simp add: timeDesc_def showInt_def showNat_5 phraseWillIn_def phraseMinutesLater_def)
  from a show "isDue e t = isDue e (t\<lparr>reminderOffset := Some 5\<rparr>)"
    by (simp add: isDue_def taskTimeStr_def Let_def split: option.splits)
  from a show "payload t = payload (t\<lparr>reminderOffset := Some 5\<rparr>)"
    by (simp add: payload_def body_def timeDesc_def)
next
  assume a: "reminderOffset t = Some n"
  then show "isDue e t \<longleftrightarrow>
         (\<exists>start. parseDate e (taskTimeStr t) = Some start \<and>
            Some (currentTimestamp e) = map_option floorMinute (newDate (start - n * 60000)))"
    by (simp add: isDue_def Let_def split: option.splits)
  from a show "timeDesc t =
          (if n = 0 then [CHR 0xE7, CHR 0x8E, CHR 0xB0, CHR 0xE5, CHR 0x9C, CHR 0xA8, CHR 0xE5, CHR 0xBC, CHR 0x80, CHR 0xE5, CHR 0xA7, CHR 0x8B]
           else [CHR 0xE5, CHR 0xB0, CHR 0x86, CHR 0xE5, CHR 0x9C, CHR 0xA8] @ '' ''
                  @ (if n < 0 then CHR ''-'' # showNat (nat (- n)) else showNat (nat n))
                  @ '' '' @ [CHR 0xE5, CHR 0x88, CHR 0x86, CHR 0xE9, CHR 0x92, CHR 0x9F, CHR 0xE5, CHR 0x90, CHR 0x8E, CHR 0xE5, CHR 0xBC, CHR 0x80, CHR 0xE5, CHR 0xA7, CHR 0x8B])"
    by (simp add: timeDesc_def showInt_def phraseStartsNow_def phraseWillIn_def
        phraseMinutesLater_def)
next
  show "showNat m = [''0123456789'' ! m]" if "m < 10"
    using that by (rule showNat_small)
  show "showNat m = showNat (m div 10) @ [''0123456789'' ! (m mod 10)]" if "10 \<le> m"
    using that by (rule showNat_large)
  show "readNat (showNat m) = m"
    by (rule readNat_showNat)
qed

text \<open>
  Without an offset the sample task is due at 09:55:30.123 and not at 10:00, and its
  wording names 5 minutes; with 0 it is due at 10:00 with the starts-now wording; with 15
  it is due at 09:45:30 and the wording names 15; with \<open>-2\<close> it is due at 10:02:10 and
  the wording names \<open>-2\<close>.
\<close>

theorem reminder_offset_default_witness:
  "reminderOffset defaultOffsetTask = None
   \<and> isDue (sampleEnv 1704102930123) defaultOffsetTask
   \<and> \<not> isDue (sampleEnv 1704103200000) defaultOffsetTask
   \<and> timeDesc defaultOffsetTask = [CHR 0xE5, CHR 0xB0, CHR 0x86, CHR 0xE5, CHR 0x9C, CHR 0xA8] @ '' 5 '' @ [CHR 0xE5, CHR 0x88, CHR 0x86, CHR 0xE9, CHR 0x92, CHR 0x9F, CHR 0xE5, CHR 0x90, CHR 0x8E, CHR 0xE5, CHR 0xBC, CHR 0x80, CHR 0xE5, CHR 0xA7, CHR 0x8B]
   \<and> reminderOffset (sampleTask\<lparr>reminderOffset := Some 0\<rparr>) = Some 0
   \<and> isDue (sampleEnv 1704103200000) (sampleTask\<lparr>reminderOffset := Some 0\<rparr>)
   \<and> timeDesc (sampleTask\<lparr>reminderOffset := Some 0\<rparr>) = [CHR 0xE7, CHR 0x8E, CHR 0xB0, CHR 0xE5, CHR 0x9C, CHR 0xA8, CHR 0xE5, CHR 0xBC, CHR 0x80, CHR 0xE5, CHR 0xA7, CHR 0x8B]
   \<and> reminderOffset quarterTask = Some 15
   \<and> isDue (sampleEnv 1704102330000) quarterTask
   \<and> \<not> isDue (sampleEnv 1704102930123) quarterTask
   \<and> timeDesc quarterTask = [CHR 0xE5, CHR 0xB0, CHR 0x86, CHR 0xE5, CHR 0x9C, CHR 0xA8] @ '' 15 '' @ [CHR 0xE5, CHR 0x88, CHR 0x86, CHR 0xE9, CHR 0x92, CHR 0x9F, CHR 0xE5, CHR 0x90, CHR 0x8E, CHR 0xE5, CHR 0xBC, CHR 0x80, CHR 0xE5, CHR 0xA7, CHR 0x8B]
   \<and> reminderOffset afterStartTask = Some (- 2)
   \<and> isDue (sampleEnv 1704103330000) afterStartTask
   \<and> \<not> isDue (sampleEnv 1704103200000) afterStartTask
   \<and> timeDesc afterStartTask = [CHR 0xE5, CHR 0xB0, CHR 0x86, CHR 0xE5, CHR 0x9C, CHR 0xA8] @ '' -2 '' @ [CHR 0xE5, CHR 0x88, CHR 0x86, CHR 0xE9, CHR 0x92, CHR 0x9F, CHR 0xE5, CHR 0x90, CHR 0x8E, CHR 0xE5, CHR 0xBC, CHR 0x80, CHR 0xE5, CHR 0xA7, CHR 0x8B]
   \<and> showNat 15 = ''15'' \<and> showNat 2 = ''2'' \<and> showNat 120 = ''120''"
proof -
  let ?z = "sampleTask\<lparr>reminderOffset := Some 0\<rparr>"
  have a: "reminderOffset defaultOffsetTask = None" "reminderOffset ?z = Some 0"
    "reminderOffset quarterTask = Some 15" "reminderOffset afterStartTask = Some (- 2)"
    by (simp_all add: defaultOffsetTask_def quarterTask_def afterStartTask_def)
  have p: "parseDate (sampleEnv k) (taskTimeStr defaultOffsetTask) = Some 1704103200000"
    "parseDate (sampleEnv k) (taskTimeStr ?z) = Some 1704103200000"
    "parseDate (sampleEnv k) (taskTimeStr quarterTask) = Some 1704103200000"
    "parseDate (sampleEnv k) (taskTimeStr afterStartTask) = Some 1704103200000"
    for k
    by (simp_all add: sampleEnv_def sampleParse_def taskTimeStr_def js_str_def defaultOffsetTask_def
        quarterTask_def afterStartTask_def sampleTask_def)
  have c: "Some (currentTimestamp (sampleEnv 1704102930123))
        = map_option floorMinute (newDate (1704103200000 - 5 * 60000))"
      "Some (currentTimestamp (sampleEnv 1704103200000))
        \<noteq> map_option floorMinute (newDate (1704103200000 - 5 * 60000))"
      "Some (currentTimestamp (sampleEnv 1704103200000))
        = map_option floorMinute (newDate (1704103200000 - 0 * 60000))"
      "Some (currentTimestamp (sampleEnv 1704102330000))
        = map_option floorMinute (newDate (1704103200000 - 15 * 60000))"
      "Some (currentTimestamp (sampleEnv 1704102930123))
        \<noteq> map_option floorMinute (newDate (1704103200000 - 15 * 60000))"
      "Some (currentTimestamp (sampleEnv 1704103330000))
        = map_option floorMinute (newDate (1704103200000 - (- 2) * 60000))"
      "Some (currentTimestamp (sampleEnv 1704103200000))
        \<noteq> map_option floorMinute (newDate (1704103200000 - (- 2) * 60000))"
    by (simp_all add: currentTimestamp_def floorMinute_def newDate_def maxTime_def sampleEnv_def)
  note d1 = reminder_offset_default [of defaultOffsetTask "sampleEnv 1704102930123" 0 15]
  note d2 = reminder_offset_default [of defaultOffsetTask "sampleEnv 1704103200000" 0 2]
  note z1 = reminder_offset_default [of ?z "sampleEnv 1704103200000" 0 120]
  note q1 = reminder_offset_default [of quarterTask "sampleEnv 1704102330000" 15 1]
  note q2 = reminder_offset_default [of quarterTask "sampleEnv 1704102930123" 15 12]
  note n1 = reminder_offset_default [of afterStartTask "sampleEnv 1704103330000" "- 2" 15]
  note n2 = reminder_offset_default [of afterStartTask "sampleEnv 1704103200000" "- 2" 15]
  from d1 a(1) p(1) c(1)
  have 1: "isDue (sampleEnv 1704102930123) defaultOffsetTask"
    "timeDesc defaultOffsetTask = [CHR 0xE5, CHR 0xB0, CHR 0x86, CHR 0xE5, CHR 0x9C, CHR 0xA8] @ '' 5 '' @ [CHR 0xE5, CHR 0x88, CHR 0x86, CHR 0xE9, CHR 0x92, CHR 0x9F, CHR 0xE5, CHR 0x90, CHR 0x8E, CHR 0xE5, CHR 0xBC, CHR 0x80, CHR 0xE5, CHR 0xA7, CHR 0x8B]"
    by simp_all
  from d2 a(1) p(1) c(2)
  have 2: "\<not> isDue (sampleEnv 1704103200000) defaultOffsetTask"
    by simp
  from z1 a(2) p(2) c(3)
  have 3: "isDue (sampleEnv 1704103200000) ?z" "timeDesc ?z = [CHR 0xE7, CHR 0x8E, CHR 0xB0, CHR 0xE5, CHR 0x9C, CHR 0xA8, CHR 0xE5, CHR 0xBC, CHR 0x80, CHR 0xE5, CHR 0xA7, CHR 0x8B]"
    by simp_all
  from d2 have s2: "showNat 2 = ''2''" by simp
  from q1 have s1: "showNat 1 = ''1''" by simp
  from q2 have s12: "showNat 12 = ''12''" using s1 by simp
  from d1 have s15: "showNat 15 = ''15''" using s1 by simp
  from z1 have s120: "showNat 120 = ''120''" using s12 by simp
  from q1 a(3) p(3) c(4) s15
  have 4: "isDue (sampleEnv 1704102330000) quarterTask"
    "timeDesc quarterTask = [CHR 0xE5, CHR 0xB0, CHR 0x86, CHR 0xE5, CHR 0x9C, CHR 0xA8] @ '' 15 '' @ [CHR 0xE5, CHR 0x88, CHR 0x86, CHR 0xE9, CHR 0x92, CHR 0x9F, CHR 0xE5, CHR 0x90, CHR 0x8E, CHR 0xE5, CHR 0xBC, CHR 0x80, CHR 0xE5, CHR 0xA7, CHR 0x8B]"
    by simp_all
  from q2 a(3) p(3) c(5)
  have 5: "\<not> isDue (sampleEnv 1704102930123) quarterTask"
    by simp
  from n1 a(4) p(4) c(6) s2
  have 6: "isDue (sampleEnv 1704103330000) afterStartTask"
    "timeDesc afterStartTask = [CHR 0xE5, CHR 0xB0, CHR 0x86, CHR 0xE5, CHR 0x9C, CHR 0xA8] @ '' -2 '' @ [CHR 0xE5, CHR 0x88, CHR 0x86, CHR 0xE9, CHR 0x92, CHR 0x9F, CHR 0xE5, CHR 0x90, CHR 0x8E, CHR 0xE5, CHR 0xBC, CHR 0x80, CHR 0xE5, CHR 0xA7, CHR 0x8B]"
    by simp_all
  from n2 a(4) p(4) c(7)
  have 7: "\<not> isDue (sampleEnv 1704103200000) afterStartTask"
    by simp
  from a 1 2 3 4 5 6 7 s15 s2 s120 show ?thesis by simp
qed

text \<open>
  Claim C5. Take a tick whose store calls go through, over subscriptions with distinct
  endpoints, a subscriber \<open>sub\<close> and a due task \<open>t\<close>. If the push of \<open>t\<close> to \<open>sub\<close> is
  rejected with 404 or 410, the handler deletes the subscription and the store holds no
  subscription with that endpoint afterwards. If it is rejected in any other way, the
  message is logged; and a subscriber none of whose pushes in the tick is rejected with
  404 or 410 is still in the store afterwards. Whatever the outcomes, every due task is
  pushed to every subscriber and saved, and the tick logs no loop error.
\<close>

theorem push_failure_classification:
  assumes "storeResponds e" and "distinct (map endpoint (subscriptions db))"
    and "sub \<in> set (subscriptions db)" and "t \<in> set (tasksToNotify e (tasks db))"
  shows "(permanentGone (pushOutcome e (doc_id t) sub (payload t)) \<longrightarrow>
            SubscriptionDeleteOne (endpoint sub) \<in> set (snd (tick e db))
            \<and> endpoint sub \<notin> endpoint ` set (subscriptions (fst (tick e db))))
       \<and> (\<forall>c m. pushOutcome e (doc_id t) sub (payload t) = Rejected c m \<and> c \<noteq> Some 410 \<and> c \<noteq> Some 404 \<longrightarrow>
            LogPushError m \<in> set (snd (tick e db)))
       \<and> ((\<forall>u \<in> set (tasksToNotify e (tasks db)).
              \<not> permanentGone (pushOutcome e (doc_id u) sub (payload u))) \<longrightarrow>
            sub \<in> set (subscriptions (fst (tick e db))))
       \<and> (\<forall>s \<in> set (subscriptions db). \<forall>u \<in> set (tasksToNotify e (tasks db)).
            SendNotification (endpoint s) (payload u) \<in> set (snd (tick e db)))
       \<and> (\<forall>u \<in> set (tasksToNotify e (tasks db)). TaskSave (doc_id u) \<in> set (snd (tick e db)))
       \<and> LogLoopError \<notin> set (snd (tick e db))"
proof (intro conjI impI allI ballI)
  note subs = tick_responding_subscriptions [OF assms(1,2)]
  note evs = tick_handler_events [OF assms(1,4,3)]
  show "SubscriptionDeleteOne (endpoint sub) \<in> set (snd (tick e db))"
    if "permanentGone (pushOutcome e (doc_id t) sub (payload t))"
    using promiseAll_deletes [OF assms(3) that, of db] evs by blast
  show "endpoint sub \<notin> endpoint ` set (subscriptions (fst (tick e db)))"
    if "permanentGone (pushOutcome e (doc_id t) sub (payload t))"
    using that assms(3,4) by (auto simp: subs)
  show "LogPushError m \<in> set (snd (tick e db))"
    if "pushOutcome e (doc_id t) sub (payload t) = Rejected c m \<and> c \<noteq> Some 410 \<and> c \<noteq> Some 404"
    for c m
    using promiseAll_logs [of sub "subscriptions db" e "doc_id t" "payload t" c m db] that assms(3) evs
    by blast
  show "sub \<in> set (subscriptions (fst (tick e db)))"
    if h: "\<forall>u \<in> set (tasksToNotify e (tasks db)).
              \<not> permanentGone (pushOutcome e (doc_id u) sub (payload u))"
  proof -
    have "endpoint sub \<notin> (\<Union>t \<in> set (tasksToNotify e (tasks db)).
                   {endpoint s | s. s \<in> set (subscriptions db)
                      \<and> permanentGone (pushOutcome e (doc_id t) s (payload t))})"
    proof
      assume "endpoint sub \<in> (\<Union>t \<in> set (tasksToNotify e (tasks db)).
                   {endpoint s | s. s \<in> set (subscriptions db)
                      \<and> permanentGone (pushOutcome e (doc_id t) s (payload t))})"
      then obtain u s where us: "u \<in> set (tasksToNotify e (tasks db))" "s \<in> set (subscriptions db)"
        "permanentGone (pushOutcome e (doc_id u) s (payload u))" "endpoint sub = endpoint s"
        by auto
      from distinct_endpoint_unique [OF assms(2,3) us(2,4)] have "sub = s" .
      with us h show False by blast
    qed
    with assms(3) show ?thesis by (simp add: subs)
  qed
  show "SendNotification (endpoint s) (payload u) \<in> set (snd (tick e db))"
    if "s \<in> set (subscriptions db)" "u \<in> set (tasksToNotify e (tasks db))" for s u
    using tick_sends(1) [OF assms(1) that(2,1)] .
  show "TaskSave (doc_id u) \<in> set (snd (tick e db))"
    if "u \<in> set (tasksToNotify e (tasks db))" for u
    using tick_sends(2) [OF assms(1) that assms(3)] .
  show "LogLoopError \<notin> set (snd (tick e db))"
    using assms(1) by (simp add: tick_loop_error storeResponds_def storeResponds_no_throw)
qed

text \<open>
  One task is due; the first subscriber answers 410 and the second 500. The first is
  deleted, the failure of the second is logged and it stays, and the task is saved.
\<close>

theorem push_failure_classification_witness:
  "storeResponds (mixedEnv 1704102930123)
   \<and> distinct (map endpoint (subscriptions twoSubscriberStore))
   \<and> sampleSub \<in> set (subscriptions twoSubscriberStore)
   \<and> sampleSub2 \<in> set (subscriptions twoSubscriberStore)
   \<and> sampleTask \<in> set (tasksToNotify (mixedEnv 1704102930123) (tasks twoSubscriberStore))
   \<and> permanentGone (pushOutcome (mixedEnv 1704102930123) (doc_id sampleTask) sampleSub (payload sampleTask))
   \<and> transientFailure (pushOutcome (mixedEnv 1704102930123) (doc_id sampleTask) sampleSub2 (payload sampleTask))
   \<and> tick (mixedEnv 1704102930123) twoSubscriberStore
      = (\<lparr>subscriptions = [sampleSub2], tasks = [sampleTask\<lparr>notified := True\<rparr>]\<rparr>,
         [SubscriptionFind, TaskFind, LogFound 1,
          SendNotification (endpoint sampleSub) (payload sampleTask),
          SendNotification (endpoint sampleSub2) (payload sampleTask),
          SubscriptionDeleteOne (endpoint sampleSub),
          LogPushError ''Internal Server Error'', TaskSave 1])
   \<and> endpoint sampleSub \<notin> endpoint ` set (subscriptions (fst (tick (mixedEnv 1704102930123) twoSubscriberStore)))
   \<and> sampleSub2 \<in> set (subscriptions (fst (tick (mixedEnv 1704102930123) twoSubscriberStore)))"
proof -
  let ?e = "mixedEnv 1704102930123"
  have h1: "storeResponds ?e"
    by (simp add: storeResponds_def mixedEnv_def sampleEnv_def)
  have h2: "distinct (map endpoint (subscriptions twoSubscriberStore))"
    by (simp add: twoSubscriberStore_def sampleSub_def sampleSub2_def)
  have h3: "sampleSub \<in> set (subscriptions twoSubscriberStore)"
    "sampleSub2 \<in> set (subscriptions twoSubscriberStore)"
    by (simp_all add: twoSubscriberStore_def)
  have h4: "sampleTask \<in> set (tasksToNotify ?e (tasks twoSubscriberStore))"
    and only: "tasksToNotify ?e (tasks twoSubscriberStore) = [sampleTask]"
    by (simp_all add: run_simps mixedEnv_def sampleEnv_def sampleParse_def twoSubscriberStore_def
        sampleTask_def)
  have g: "permanentGone (pushOutcome ?e (doc_id sampleTask) sampleSub (payload sampleTask))"
    "transientFailure (pushOutcome ?e (doc_id sampleTask) sampleSub2 (payload sampleTask))"
    by (simp_all add: permanentGone_def transientFailure_def mixedEnv_def sampleSub_def sampleSub2_def)
  have run: "tick ?e twoSubscriberStore
      = (\<lparr>subscriptions = [sampleSub2], tasks = [sampleTask\<lparr>notified := True\<rparr>]\<rparr>,
         [SubscriptionFind, TaskFind, LogFound 1,
          SendNotification (endpoint sampleSub) (payload sampleTask),
          SendNotification (endpoint sampleSub2) (payload sampleTask),
          SubscriptionDeleteOne (endpoint sampleSub),
          LogPushError ''Internal Server Error'', TaskSave 1])"
    unfolding tick_unfold only
    by (simp add: notifyLoop.simps notifyTask_def promiseAll.simps settle_def onRejected_def
        markNotified_def mixedEnv_def sampleEnv_def twoSubscriberStore_def sampleTask_def
        sampleSub_def sampleSub2_def Let_def)
  have ng: "\<forall>u \<in> set (tasksToNotify ?e (tasks twoSubscriberStore)).
      \<not> permanentGone (pushOutcome ?e (doc_id u) sampleSub2 (payload u))"
    unfolding only by (simp add: permanentGone_def mixedEnv_def sampleSub2_def)
  from push_failure_classification [OF h1 h2 h3(1) h4] g(1)
  have a: "endpoint sampleSub \<notin> endpoint ` set (subscriptions (fst (tick ?e twoSubscriberStore)))"
    by blast
  from push_failure_classification [OF h1 h2 h3(2) h4] ng
  have b: "sampleSub2 \<in> set (subscriptions (fst (tick ?e twoSubscriberStore)))"
    by blast
  from h1 h2 h3 h4 g run a b show ?thesis by blast
qed

text \<open>
  Claim C4, as stated, fails: the step that sends to one subscriber and classifies the
  outcome changes the subscription store. Here the push is rejected with 410 and the
  store, which held the subscriber, is empty after the step.
\<close>

theorem settle_deletes_subscription:
  "pushOutcome (goneEnv 1704102930123) 1 sampleSub (payload sampleTask) = Rejected (Some 410) ''Gone''
   \<and> subscriptions sampleStore = [sampleSub]
   \<and> subscriptions (fst (settle (goneEnv 1704102930123) 1 (payload sampleTask) sampleSub sampleStore)) = []"
  by (simp add: settle_def onRejected_def goneEnv_def sampleEnv_def sampleStore_def)

text \<open>
  Claim C4, amended. The rejection handler deletes the subscription itself, during the
  per-subscriber step: that step removes the subscriber's endpoint from the store when
  the push is rejected with 404 or 410 and the deletion does not throw, and leaves the
  subscriptions as they are in every other case; the only events of the step are that
  deletion or the log of another failure, so no list of dead endpoints is reported. The
  step, and the whole dispatch, never change the tasks, the dispatch only ever removes
  subscriptions, and after the dispatch the loop body deletes nothing more.
\<close>

theorem settle_store_effect:
  "tasks (fst (settle e i p sub db)) = tasks db
   \<and> subscriptions (fst (settle e i p sub db)) =
       (if permanentGone (pushOutcome e i sub p) \<and> \<not> deleteOneThrows e i (endpoint sub)
        then deleteOne (endpoint sub) (subscriptions db) else subscriptions db)
   \<and> fst (snd (settle e i p sub db)) =
       (case pushOutcome e i sub p of
          Delivered \<Rightarrow> []
        | Rejected c m \<Rightarrow>
            if c = Some 410 \<or> c = Some 404 then [SubscriptionDeleteOne (endpoint sub)]
            else [LogPushError m])
   \<and> tasks (fst (promiseAll e i p subs db)) = tasks db
   \<and> set (subscriptions (fst (promiseAll e i p subs db))) \<subseteq> set (subscriptions db)
   \<and> subscriptions (fst (notifyTask e subs t db))
       = subscriptions (fst (promiseAll e (doc_id t) (payload t) subs db))"
  by (simp add: settle_store settle_events promiseAll_tasks promiseAll_subset
      notifyTask_subscriptions)

text \<open>
  With two subscribers stored, a push to the first that is rejected with 410 leaves the
  second alone in the store; a push that times out leaves the store as it was.
\<close>

theorem settle_store_effect_witness:
  "permanentGone (pushOutcome (goneEnv 1704102930123) 1 sampleSub (payload sampleTask))
   \<and> \<not> deleteOneThrows (goneEnv 1704102930123) 1 (endpoint sampleSub)
   \<and> settle (goneEnv 1704102930123) 1 (payload sampleTask) sampleSub twoSubscriberStore
      = (twoSubscriberStore\<lparr>subscriptions := [sampleSub2]\<rparr>,
         [SubscriptionDeleteOne (endpoint sampleSub)], False)
   \<and> \<not> permanentGone (pushOutcome (outageEnv 1704102930123) 1 sampleSub (payload sampleTask))
   \<and> settle (outageEnv 1704102930123) 1 (payload sampleTask) sampleSub twoSubscriberStore
      = (twoSubscriberStore, [LogPushError ''connect ETIMEDOUT''], False)"
proof -
  let ?g = "goneEnv 1704102930123" and ?o = "outageEnv 1704102930123"
  let ?p = "payload sampleTask"
  have a: "permanentGone (pushOutcome ?g 1 sampleSub ?p)" "\<not> deleteOneThrows ?g 1 (endpoint sampleSub)"
    "\<not> permanentGone (pushOutcome ?o 1 sampleSub ?p)"
    by (simp_all add: permanentGone_def goneEnv_def outageEnv_def sampleEnv_def)
  have d: "deleteOne (endpoint sampleSub) (subscriptions twoSubscriberStore) = [sampleSub2]"
    by (simp add: twoSubscriberStore_def)
  have o: "pushOutcome ?g 1 sampleSub ?p = Rejected (Some 410) ''Gone''"
    "pushOutcome ?o 1 sampleSub ?p = Rejected None ''connect ETIMEDOUT''"
    by (simp_all add: goneEnv_def outageEnv_def sampleEnv_def)
  have t: "snd (snd (settle ?g 1 ?p sampleSub twoSubscriberStore)) = False"
    "snd (snd (settle ?o 1 ?p sampleSub twoSubscriberStore)) = False"
    using a by (simp_all add: settle_threw)
  from settle_store_effect [of ?g 1 ?p sampleSub twoSubscriberStore] a d o(1)
  have 1: "tasks (fst (settle ?g 1 ?p sampleSub twoSubscriberStore)) = tasks twoSubscriberStore"
    "subscriptions (fst (settle ?g 1 ?p sampleSub twoSubscriberStore)) = [sampleSub2]"
    "fst (snd (settle ?g 1 ?p sampleSub twoSubscriberStore)) = [SubscriptionDeleteOne (endpoint sampleSub)]"
    by simp_all
  from settle_store_effect [of ?o 1 ?p sampleSub twoSubscriberStore] a o(2)
  have 2: "tasks (fst (settle ?o 1 ?p sampleSub twoSubscriberStore)) = tasks twoSubscriberStore"
    "subscriptions (fst (settle ?o 1 ?p sampleSub twoSubscriberStore)) = subscriptions twoSubscriberStore"
    "fst (snd (settle ?o 1 ?p sampleSub twoSubscriberStore)) = [LogPushError ''connect ETIMEDOUT'']"
    by simp_all
  from 1 have 3: "fst (settle ?g 1 ?p sampleSub twoSubscriberStore) = twoSubscriberStore\<lparr>subscriptions := [sampleSub2]\<rparr>"
    by (simp add: store.equality)
  from 2 have 4: "fst (settle ?o 1 ?p sampleSub twoSubscriberStore) = twoSubscriberStore"
    by (simp add: store.equality)
  from a 1(3) 2(3) 3 4 t show ?thesis by (simp add: prod_eq_iff)
qed

text \<open>
  Claim C6. The payload is the JSON text of an object with the members \<^verbatim>\<open>title\<close>,
  \<^verbatim>\<open>body\<close> and \<^verbatim>\<open>icon\<close>, in this order. The body holds the title of the task between
  quotation marks, the wording of the time, and the start time between parentheses. With a
  resolved offset of 0 the wording is the starts-now literal of line 178 (U+73B0 U+5728
  U+5F00 U+59CB); with a positive offset it is a different one, the in-so-many-minutes
  literals (U+5C06 U+5728 before, U+5206 U+949F U+540E U+5F00 U+59CB after) around the
  decimal numeral of the offset: digits only, one digit below ten and else the numeral of
  the tens followed by the digit of the units, and reading them back gives the offset.
  Read back as JSON the payload is the object of these three members, whatever bytes the
  title holds, and this payload is what the loop sends to every subscriber for the task.
  All literals are given by their UTF-8 bytes.
\<close>

theorem payload_wording:
  "payload t =
      ''{'' @ jsonQuote ''title'' @ '':'' @ jsonQuote (''LifeOS '' @ [CHR 0xE6, CHR 0x97, CHR 0xA5, CHR 0xE7, CHR 0xA8, CHR 0x8B, CHR 0xE6, CHR 0x8F, CHR 0x90, CHR 0xE9, CHR 0x86, CHR 0x92])
      @ '','' @ jsonQuote ''body'' @ '':'' @ jsonQuote (body t)
      @ '','' @ jsonQuote ''icon'' @ '':'' @ jsonQuote ''/icon.png'' @ ''}''
   \<and> body t = [CHR 0xE4, CHR 0xBB, CHR 0xBB, CHR 0xE5, CHR 0x8A, CHR 0xA1] @ '' '' @ [CHR 0x22]
                @ (case title t of None \<Rightarrow> ''undefined'' | Some s \<Rightarrow> s) @ [CHR 0x22] @ '' ''
                @ timeDesc t @ '' (''
                @ (case startTime t of None \<Rightarrow> ''undefined'' | Some s \<Rightarrow> s) @ '')''
   \<and> (title t = Some ttl \<and> startTime t = Some st \<longrightarrow>
        body t = [CHR 0xE4, CHR 0xBB, CHR 0xBB, CHR 0xE5, CHR 0x8A, CHR 0xA1] @ '' '' @ [CHR 0x22] @ ttl @ [CHR 0x22] @ '' '' @ timeDesc t
                   @ '' ('' @ st @ '')'')
   \<and> ((case reminderOffset t of None \<Rightarrow> 5 | Some v \<Rightarrow> v) = 0 \<longrightarrow> timeDesc t = [CHR 0xE7, CHR 0x8E, CHR 0xB0, CHR 0xE5, CHR 0x9C, CHR 0xA8, CHR 0xE5, CHR 0xBC, CHR 0x80, CHR 0xE5, CHR 0xA7, CHR 0x8B])
   \<and> (0 < (case reminderOffset t of None \<Rightarrow> 5 | Some v \<Rightarrow> v) \<longrightarrow>
        timeDesc t = [CHR 0xE5, CHR 0xB0, CHR 0x86, CHR 0xE5, CHR 0x9C, CHR 0xA8] @ '' '' @ showNat (nat (case reminderOffset t of None \<Rightarrow> 5 | Some v \<Rightarrow> v)) @ '' '' @ [CHR 0xE5, CHR 0x88, CHR 0x86, CHR 0xE9, CHR 0x92, CHR 0x9F, CHR 0xE5, CHR 0x90, CHR 0x8E, CHR 0xE5, CHR 0xBC, CHR 0x80, CHR 0xE5, CHR 0xA7, CHR 0x8B]
        \<and> timeDesc t \<noteq> [CHR 0xE7, CHR 0x8E, CHR 0xB0, CHR 0xE5, CHR 0x9C, CHR 0xA8, CHR 0xE5, CHR 0xBC, CHR 0x80, CHR 0xE5, CHR 0xA7, CHR 0x8B]
        \<and> readNat (showNat (nat (case reminderOffset t of None \<Rightarrow> 5 | Some v \<Rightarrow> v))) = nat (case reminderOffset t of None \<Rightarrow> 5 | Some v \<Rightarrow> v)
        \<and> set (showNat (nat (case reminderOffset t of None \<Rightarrow> 5 | Some v \<Rightarrow> v))) \<subseteq> set ''0123456789'')
   \<and> (m < 10 \<longrightarrow> showNat m = [''0123456789'' ! m])
   \<and> (10 \<le> m \<longrightarrow> showNat m = showNat (m div 10) @ [''0123456789'' ! (m mod 10)])
   \<and> readObject (payload t)
        = Some [(''title'', ''LifeOS '' @ [CHR 0xE6, CHR 0x97, CHR 0xA5, CHR 0xE7, CHR 0xA8, CHR 0x8B, CHR 0xE6, CHR 0x8F, CHR 0x90, CHR 0xE9, CHR 0x86, CHR 0x92]), (''body'', body t), (''icon'', ''/icon.png'')]
   \<and> (\<forall>sub \<in> set subs.
        SendNotification (endpoint sub) (payload t) \<in> set (fst (snd (notifyTask e subs t db))))"
proof (intro conjI impI ballI)
  show "payload t =
      ''{'' @ jsonQuote ''title'' @ '':'' @ jsonQuote (''LifeOS '' @ [CHR 0xE6, CHR 0x97, CHR 0xA5, CHR 0xE7, CHR 0xA8, CHR 0x8B, CHR 0xE6, CHR 0x8F, CHR 0x90, CHR 0xE9, CHR 0x86, CHR 0x92])
      @ '','' @ jsonQuote ''body'' @ '':'' @ jsonQuote (body t)
      @ '','' @ jsonQuote ''icon'' @ '':'' @ jsonQuote ''/icon.png'' @ ''}''"
    by (simp add: payload_def JSON_stringify_def notificationTitle_def)
  show "body t = [CHR 0xE4, CHR 0xBB, CHR 0xBB, CHR 0xE5, CHR 0x8A, CHR 0xA1] @ '' '' @ [CHR 0x22]
                @ (case title t of None \<Rightarrow> ''undefined'' | Some s \<Rightarrow> s) @ [CHR 0x22] @ '' ''
                @ timeDesc t @ '' (''
                @ (case startTime t of None \<Rightarrow> ''undefined'' | Some s \<Rightarrow> s) @ '')''"
    by (simp add: body_def js_str_def wordTask_def)
  show "body t = [CHR 0xE4, CHR 0xBB, CHR 0xBB, CHR 0xE5, CHR 0x8A, CHR 0xA1] @ '' '' @ [CHR 0x22] @ ttl @ [CHR 0x22] @ '' '' @ timeDesc t
                   @ '' ('' @ st @ '')''"
    if "title t = Some ttl \<and> startTime t = Some st"
    using that by (simp add: body_def js_str_def wordTask_def)
  show "timeDesc t = [CHR 0xE7, CHR 0x8E, CHR 0xB0, CHR 0xE5, CHR 0x9C, CHR 0xA8, CHR 0xE5, CHR 0xBC, CHR 0x80, CHR 0xE5, CHR 0xA7, CHR 0x8B]"
    if "(case reminderOffset t of None \<Rightarrow> 5 | Some v \<Rightarrow> v) = 0"
    using that by (simp add: timeDesc_def phraseStartsNow_def)
  show "showNat m = [''0123456789'' ! m]" if "m < 10"
    using that by (rule showNat_small)
  show "showNat m = showNat (m div 10) @ [''0123456789'' ! (m mod 10)]" if "10 \<le> m"
    using that by (rule showNat_large)
  show "readObject (payload t)
        = Some [(''title'', ''LifeOS '' @ [CHR 0xE6, CHR 0x97, CHR 0xA5, CHR 0xE7, CHR 0xA8, CHR 0x8B, CHR 0xE6, CHR 0x8F, CHR 0x90, CHR 0xE9, CHR 0x86, CHR 0x92]), (''body'', body t), (''icon'', ''/icon.png'')]"
    by (simp add: readObject_payload notificationTitle_def)
  show "SendNotification (endpoint sub) (payload t) \<in> set (fst (snd (notifyTask e subs t db)))"
    if "sub \<in> set subs" for sub
    using that by (simp add: notifyTask_events)
  assume pos: "0 < (case reminderOffset t of None \<Rightarrow> 5 | Some v \<Rightarrow> v)"
  then show td: "timeDesc t = [CHR 0xE5, CHR 0xB0, CHR 0x86, CHR 0xE5, CHR 0x9C, CHR 0xA8] @ '' '' @ showNat (nat (case reminderOffset t of None \<Rightarrow> 5 | Some v \<Rightarrow> v)) @ '' '' @ [CHR 0xE5, CHR 0x88, CHR 0x86, CHR 0xE9, CHR 0x92, CHR 0x9F, CHR 0xE5, CHR 0x90, CHR 0x8E, CHR 0xE5, CHR 0xBC, CHR 0x80, CHR 0xE5, CHR 0xA7, CHR 0x8B]"
    by (simp add: timeDesc_def showInt_pos Let_def phraseWillIn_def phraseMinutesLater_def)
  then show "timeDesc t \<noteq> [CHR 0xE7, CHR 0x8E, CHR 0xB0, CHR 0xE5, CHR 0x9C, CHR 0xA8, CHR 0xE5, CHR 0xBC, CHR 0x80, CHR 0xE5, CHR 0xA7, CHR 0x8B]"
    by simp
  show "readNat (showNat (nat (case reminderOffset t of None \<Rightarrow> 5 | Some v \<Rightarrow> v))) = nat (case reminderOffset t of None \<Rightarrow> 5 | Some v \<Rightarrow> v)"
    by (rule readNat_showNat)
  show "set (showNat (nat (case reminderOffset t of None \<Rightarrow> 5 | Some v \<Rightarrow> v))) \<subseteq> set ''0123456789''"
    by (rule showNat_decimal_digits)
qed

text \<open>
  The payload of the sample task, offset 5, written out; the bodies of the same task with
  offsets of 0 and of 15; and the payload of a task whose title holds quotation marks and
  a line feed, with what it reads back to.
\<close>

theorem payload_wording_witness:
  \<open>title sampleTask = Some ''Stand-up'' \<and> startTime sampleTask = Some ''10:00''
   \<and> 0 < (case reminderOffset sampleTask of None \<Rightarrow> 5 | Some v \<Rightarrow> v)
   \<and> body sampleTask
       = [CHR 0xE4, CHR 0xBB, CHR 0xBB, CHR 0xE5, CHR 0x8A, CHR 0xA1] @ '' "Stand-up" '' @ [CHR 0xE5, CHR 0xB0, CHR 0x86, CHR 0xE5, CHR 0x9C, CHR 0xA8] @ '' 5 '' @ [CHR 0xE5, CHR 0x88, CHR 0x86, CHR 0xE9, CHR 0x92, CHR 0x9F, CHR 0xE5, CHR 0x90, CHR 0x8E, CHR 0xE5, CHR 0xBC, CHR 0x80, CHR 0xE5, CHR 0xA7, CHR 0x8B] @ '' (10:00)''
   \<and> payload sampleTask
       = ''{"title":"LifeOS '' @ [CHR 0xE6, CHR 0x97, CHR 0xA5, CHR 0xE7, CHR 0xA8, CHR 0x8B, CHR 0xE6, CHR 0x8F, CHR 0x90, CHR 0xE9, CHR 0x86, CHR 0x92] @ ''","body":"'' @ [CHR 0xE4, CHR 0xBB, CHR 0xBB, CHR 0xE5, CHR 0x8A, CHR 0xA1] @ '' '' @ [CHR 0x5C, CHR 0x22]
           @ ''Stand-up'' @ [CHR 0x5C, CHR 0x22] @ '' '' @ [CHR 0xE5, CHR 0xB0, CHR 0x86, CHR 0xE5, CHR 0x9C, CHR 0xA8] @ '' 5 '' @ [CHR 0xE5, CHR 0x88, CHR 0x86, CHR 0xE9, CHR 0x92, CHR 0x9F, CHR 0xE5, CHR 0x90, CHR 0x8E, CHR 0xE5, CHR 0xBC, CHR 0x80, CHR 0xE5, CHR 0xA7, CHR 0x8B]
           @ '' (10:00)","icon":"/icon.png"}''
   \<and> (case reminderOffset (sampleTask\<lparr>reminderOffset := Some 0\<rparr>) of None \<Rightarrow> 5 | Some v \<Rightarrow> v) = 0
   \<and> body (sampleTask\<lparr>reminderOffset := Some 0\<rparr>)
       = [CHR 0xE4, CHR 0xBB, CHR 0xBB, CHR 0xE5, CHR 0x8A, CHR 0xA1] @ '' "Stand-up" '' @ [CHR 0xE7, CHR 0x8E, CHR 0xB0, CHR 0xE5, CHR 0x9C, CHR 0xA8, CHR 0xE5, CHR 0xBC, CHR 0x80, CHR 0xE5, CHR 0xA7, CHR 0x8B] @ '' (10:00)''
   \<and> 0 < (case reminderOffset quarterTask of None \<Rightarrow> 5 | Some v \<Rightarrow> v)
   \<and> body quarterTask
       = [CHR 0xE4, CHR 0xBB, CHR 0xBB, CHR 0xE5, CHR 0x8A, CHR 0xA1] @ '' "Stand-up" '' @ [CHR 0xE5, CHR 0xB0, CHR 0x86, CHR 0xE5, CHR 0x9C, CHR 0xA8] @ '' 15 '' @ [CHR 0xE5, CHR 0x88, CHR 0x86, CHR 0xE9, CHR 0x92, CHR 0x9F, CHR 0xE5, CHR 0x90, CHR 0x8E, CHR 0xE5, CHR 0xBC, CHR 0x80, CHR 0xE5, CHR 0xA7, CHR 0x8B] @ '' (10:00)''
   \<and> title quotedTask = Some (''Say "hi"'' @ [CHR 0x0A])
   \<and> payload quotedTask
       = ''{"title":"LifeOS '' @ [CHR 0xE6, CHR 0x97, CHR 0xA5, CHR 0xE7, CHR 0xA8, CHR 0x8B, CHR 0xE6, CHR 0x8F, CHR 0x90, CHR 0xE9, CHR 0x86, CHR 0x92] @ ''","body":"'' @ [CHR 0xE4, CHR 0xBB, CHR 0xBB, CHR 0xE5, CHR 0x8A, CHR 0xA1] @ '' '' @ [CHR 0x5C, CHR 0x22]
           @ ''Say '' @ [CHR 0x5C, CHR 0x22] @ ''hi'' @ [CHR 0x5C, CHR 0x22, CHR 0x5C, CHR ''n'']
           @ [CHR 0x5C, CHR 0x22] @ '' '' @ [CHR 0xE5, CHR 0xB0, CHR 0x86, CHR 0xE5, CHR 0x9C, CHR 0xA8] @ '' 5 '' @ [CHR 0xE5, CHR 0x88, CHR 0x86, CHR 0xE9, CHR 0x92, CHR 0x9F, CHR 0xE5, CHR 0x90, CHR 0x8E, CHR 0xE5, CHR 0xBC, CHR 0x80, CHR 0xE5, CHR 0xA7, CHR 0x8B]
           @ '' (10:00)","icon":"/icon.png"}''
   \<and> readObject (payload quotedTask)
       = Some [(''title'', ''LifeOS '' @ [CHR 0xE6, CHR 0x97, CHR 0xA5, CHR 0xE7, CHR 0xA8, CHR 0x8B, CHR 0xE6, CHR 0x8F, CHR 0x90, CHR 0xE9, CHR 0x86, CHR 0x92]),
               (''body'', [CHR 0xE4, CHR 0xBB, CHR 0xBB, CHR 0xE5, CHR 0x8A, CHR 0xA1] @ '' "Say "hi"'' @ [CHR 0x0A] @ ''" '' @ [CHR 0xE5, CHR 0xB0, CHR 0x86, CHR 0xE5, CHR 0x9C, CHR 0xA8] @ '' 5 '' @ [CHR 0xE5, CHR 0x88, CHR 0x86, CHR 0xE9, CHR 0x92, CHR 0x9F, CHR 0xE5, CHR 0x90, CHR 0x8E, CHR 0xE5, CHR 0xBC, CHR 0x80, CHR 0xE5, CHR 0xA7, CHR 0x8B]
                            @ '' (10:00)''),
               (''icon'', ''/icon.png'')]
   \<and> SendNotification (endpoint sampleSub) (payload sampleTask)
       \<in> set (fst (snd (notifyTask (sampleEnv 1704102930123) [sampleSub] sampleTask sampleStore)))\<close>
proof -
  let ?z = "sampleTask\<lparr>reminderOffset := Some 0\<rparr>"
  have h: "title sampleTask = Some ''Stand-up'' \<and> startTime sampleTask = Some ''10:00''"
    "title ?z = Some ''Stand-up'' \<and> startTime ?z = Some ''10:00''"
    "title quarterTask = Some ''Stand-up'' \<and> startTime quarterTask = Some ''10:00''"
    \<open>title quotedTask = Some (''Say "hi"'' @ [CHR 0x0A]) \<and> startTime quotedTask = Some ''10:00''\<close>
    by (simp_all add: sampleTask_def quarterTask_def quotedTask_def)
  have o: "(case reminderOffset sampleTask of None \<Rightarrow> 5 | Some v \<Rightarrow> v) = 5"
    "(case reminderOffset ?z of None \<Rightarrow> 5 | Some v \<Rightarrow> v) = 0"
    "(case reminderOffset quarterTask of None \<Rightarrow> 5 | Some v \<Rightarrow> v) = 15"
    "(case reminderOffset quotedTask of None \<Rightarrow> 5 | Some v \<Rightarrow> v) = 5"
    by (simp_all add: sampleTask_def quarterTask_def quotedTask_def)
  note w = payload_wording [of sampleTask "''Stand-up''" "''10:00''" 5 "[sampleSub]"
      "sampleEnv 1704102930123" sampleStore]
  note z = payload_wording [of ?z "''Stand-up''" "''10:00''" 1 "[]"
      "sampleEnv 1704102930123" sampleStore]
  note q = payload_wording [of quarterTask "''Stand-up''" "''10:00''" 15 "[]"
      "sampleEnv 1704102930123" sampleStore]
  note u = payload_wording [of quotedTask \<open>''Say "hi"'' @ [CHR 0x0A]\<close> "''10:00''" 5 "[]"
      "sampleEnv 1704102930123" sampleStore]
  from w have s5: "showNat 5 = ''5''" by simp
  from z have s1: "showNat 1 = ''1''" by simp
  from q s1 have s15: "showNat 15 = ''15''" by simp
  from w h(1) o(1) s5 have td: "timeDesc sampleTask = [CHR 0xE5, CHR 0xB0, CHR 0x86, CHR 0xE5, CHR 0x9C, CHR 0xA8] @ '' 5 '' @ [CHR 0xE5, CHR 0x88, CHR 0x86, CHR 0xE9, CHR 0x92, CHR 0x9F, CHR 0xE5, CHR 0x90, CHR 0x8E, CHR 0xE5, CHR 0xBC, CHR 0x80, CHR 0xE5, CHR 0xA7, CHR 0x8B]"
    by simp
  from w h(1) td have b: \<open>body sampleTask
       = [CHR 0xE4, CHR 0xBB, CHR 0xBB, CHR 0xE5, CHR 0x8A, CHR 0xA1] @ '' "Stand-up" '' @ [CHR 0xE5, CHR 0xB0, CHR 0x86, CHR 0xE5, CHR 0x9C, CHR 0xA8] @ '' 5 '' @ [CHR 0xE5, CHR 0x88, CHR 0x86, CHR 0xE9, CHR 0x92, CHR 0x9F, CHR 0xE5, CHR 0x90, CHR 0x8E, CHR 0xE5, CHR 0xBC, CHR 0x80, CHR 0xE5, CHR 0xA7, CHR 0x8B] @ '' (10:00)''\<close>
    by simp
  from z h(2) o(2) have bz: \<open>body ?z = [CHR 0xE4, CHR 0xBB, CHR 0xBB, CHR 0xE5, CHR 0x8A, CHR 0xA1] @ '' "Stand-up" '' @ [CHR 0xE7, CHR 0x8E, CHR 0xB0, CHR 0xE5, CHR 0x9C, CHR 0xA8, CHR 0xE5, CHR 0xBC, CHR 0x80, CHR 0xE5, CHR 0xA7, CHR 0x8B] @ '' (10:00)''\<close>
    by simp
  from q h(3) o(3) s15 have bq: \<open>body quarterTask
       = [CHR 0xE4, CHR 0xBB, CHR 0xBB, CHR 0xE5, CHR 0x8A, CHR 0xA1] @ '' "Stand-up" '' @ [CHR 0xE5, CHR 0xB0, CHR 0x86, CHR 0xE5, CHR 0x9C, CHR 0xA8] @ '' 15 '' @ [CHR 0xE5, CHR 0x88, CHR 0x86, CHR 0xE9, CHR 0x92, CHR 0x9F, CHR 0xE5, CHR 0x90, CHR 0x8E, CHR 0xE5, CHR 0xBC, CHR 0x80, CHR 0xE5, CHR 0xA7, CHR 0x8B] @ '' (10:00)''\<close>
    by simp
  from u h(4) o(4) s5 have bu: \<open>body quotedTask
       = [CHR 0xE4, CHR 0xBB, CHR 0xBB, CHR 0xE5, CHR 0x8A, CHR 0xA1] @ '' "Say "hi"'' @ [CHR 0x0A] @ ''" '' @ [CHR 0xE5, CHR 0xB0, CHR 0x86, CHR 0xE5, CHR 0x9C, CHR 0xA8] @ '' 5 '' @ [CHR 0xE5, CHR 0x88, CHR 0x86, CHR 0xE9, CHR 0x92, CHR 0x9F, CHR 0xE5, CHR 0x90, CHR 0x8E, CHR 0xE5, CHR 0xBC, CHR 0x80, CHR 0xE5, CHR 0xA7, CHR 0x8B] @ '' (10:00)''\<close>
    by simp
  have p: \<open>payload sampleTask
       = ''{"title":"LifeOS '' @ [CHR 0xE6, CHR 0x97, CHR 0xA5, CHR 0xE7, CHR 0xA8, CHR 0x8B, CHR 0xE6, CHR 0x8F, CHR 0x90, CHR 0xE9, CHR 0x86, CHR 0x92] @ ''","body":"'' @ [CHR 0xE4, CHR 0xBB, CHR 0xBB, CHR 0xE5, CHR 0x8A, CHR 0xA1] @ '' '' @ [CHR 0x5C, CHR 0x22]
           @ ''Stand-up'' @ [CHR 0x5C, CHR 0x22] @ '' '' @ [CHR 0xE5, CHR 0xB0, CHR 0x86, CHR 0xE5, CHR 0x9C, CHR 0xA8] @ '' 5 '' @ [CHR 0xE5, CHR 0x88, CHR 0x86, CHR 0xE9, CHR 0x92, CHR 0x9F, CHR 0xE5, CHR 0x90, CHR 0x8E, CHR 0xE5, CHR 0xBC, CHR 0x80, CHR 0xE5, CHR 0xA7, CHR 0x8B]
           @ '' (10:00)","icon":"/icon.png"}''\<close>
    using w [THEN conjunct1] unfolding b
    by (simp add: jsonQuote_def jsonEscape_def)
  have pu: \<open>payload quotedTask
       = ''{"title":"LifeOS '' @ [CHR 0xE6, CHR 0x97, CHR 0xA5, CHR 0xE7, CHR 0xA8, CHR 0x8B, CHR 0xE6, CHR 0x8F, CHR 0x90, CHR 0xE9, CHR 0x86, CHR 0x92] @ ''","body":"'' @ [CHR 0xE4, CHR 0xBB, CHR 0xBB, CHR 0xE5, CHR 0x8A, CHR 0xA1] @ '' '' @ [CHR 0x5C, CHR 0x22]
           @ ''Say '' @ [CHR 0x5C, CHR 0x22] @ ''hi'' @ [CHR 0x5C, CHR 0x22, CHR 0x5C, CHR ''n'']
           @ [CHR 0x5C, CHR 0x22] @ '' '' @ [CHR 0xE5, CHR 0xB0, CHR 0x86, CHR 0xE5, CHR 0x9C, CHR 0xA8] @ '' 5 '' @ [CHR 0xE5, CHR 0x88, CHR 0x86, CHR 0xE9, CHR 0x92, CHR 0x9F, CHR 0xE5, CHR 0x90, CHR 0x8E, CHR 0xE5, CHR 0xBC, CHR 0x80, CHR 0xE5, CHR 0xA7, CHR 0x8B]
           @ '' (10:00)","icon":"/icon.png"}''\<close>
    using u [THEN conjunct1] unfolding bu
    by (simp add: jsonQuote_def jsonEscape_def)
  from u [THEN conjunct2, THEN conjunct2, THEN conjunct2, THEN conjunct2, THEN conjunct2,
      THEN conjunct2, THEN conjunct2, THEN conjunct1]
  have r: \<open>readObject (payload quotedTask)
       = Some [(''title'', ''LifeOS '' @ [CHR 0xE6, CHR 0x97, CHR 0xA5, CHR 0xE7, CHR 0xA8, CHR 0x8B, CHR 0xE6, CHR 0x8F, CHR 0x90, CHR 0xE9, CHR 0x86, CHR 0x92]),
               (''body'', [CHR 0xE4, CHR 0xBB, CHR 0xBB, CHR 0xE5, CHR 0x8A, CHR 0xA1] @ '' "Say "hi"'' @ [CHR 0x0A] @ ''" '' @ [CHR 0xE5, CHR 0xB0, CHR 0x86, CHR 0xE5, CHR 0x9C, CHR 0xA8] @ '' 5 '' @ [CHR 0xE5, CHR 0x88, CHR 0x86, CHR 0xE9, CHR 0x92, CHR 0x9F, CHR 0xE5, CHR 0x90, CHR 0x8E, CHR 0xE5, CHR 0xBC, CHR 0x80, CHR 0xE5, CHR 0xA7, CHR 0x8B]
                            @ '' (10:00)''),
               (''icon'', ''/icon.png'')]\<close>
    unfolding bu .
  from w [THEN conjunct2, THEN conjunct2, THEN conjunct2, THEN conjunct2, THEN conjunct2,
      THEN conjunct2, THEN conjunct2, THEN conjunct2]
  have s: "SendNotification (endpoint sampleSub) (payload sampleTask)
       \<in> set (fst (snd (notifyTask (sampleEnv 1704102930123) [sampleSub] sampleTask sampleStore)))"
    by simp
  from h(1,4) o b bz bq p pu r s show ?thesis by simp
qed

end
